theory Spec2Isabelle
  imports Complex_Main "HOL-Library.Signed_Division"
begin

section \<open>Go values used by the load tester\<close>

text \<open>
  \<^verbatim>\<open>main.go\<close> holds two revisions of the load tester, one after the other. The
  model follows the second one, which has the error classifier, the guards for an
  empty duration collection and the sorted status report.
\<close>

subsection \<open>Durations and panics\<close>

text \<open>
  \<^verbatim>\<open>time.Duration\<close> is a signed 64-bit count of nanoseconds. It is modelled by
  \<^typ>\<open>int\<close>; the one place where the program adds durations (the running total
  behind the average) has its wrap-around written out. The counters of the report are
  Go \<^verbatim>\<open>int\<close>s that count received results, so they stay far below \<open>2^63\<close> and
  are plain \<^typ>\<open>int\<close>s here.
\<close>

type_synonym Duration = int

definition Millisecond :: Duration where
  "Millisecond = 1000000"

definition Second :: Duration where
  "Second = 1000000000"

definition Hour :: Duration where
  "Hour = 3600000000000"

definition wrap64 :: "int \<Rightarrow> int" where
  "wrap64 x = (x + 2 ^ 63) mod 2 ^ 64 - 2 ^ 63"

text \<open>Run-time panics of the Go program are values of the model.\<close>

datatype panic = DivideByZero | IndexOutOfRange | MakechanSizeOutOfRange

definition go_div :: "int \<Rightarrow> int \<Rightarrow> panic + int" where
  "go_div a b = (if b = 0 then Inl DivideByZero else Inr (wrap64 (a sdiv b)))"

subsection \<open>Binary64 arithmetic\<close>

text \<open>
  A finite \<^verbatim>\<open>float64\<close> is the rational number it denotes. Every arithmetic
  operation computes the exact result and rounds it to 53 significant bits, ties to
  even, as IEEE 754 prescribes. The exponent range is not bounded (no overflow to
  infinity, no subnormal numbers) and the sign of zero is not kept; the quantities of
  this program (counts, nanoseconds, percentages) are far from both ends of the range.
  Each operation is rounded on its own, as on a machine without fused multiply-add.
\<close>

function log2floor :: "int \<Rightarrow> int" where
  "log2floor n = (if n < 2 then 0 else 1 + log2floor (n div 2))"
  by pat_completeness auto
termination
  by (relation "measure nat") auto

declare log2floor.simps [simp del]

definition pow2 :: "int \<Rightarrow> rat" where
  "pow2 e = (if 0 \<le> e then 2 ^ nat e else 1 / 2 ^ nat (- e))"

text \<open>The binary exponent \<open>e\<close> of a positive rational: \<open>2^e \<le> x < 2^(e+1)\<close>.\<close>

definition exponent :: "rat \<Rightarrow> int" where
  "exponent x =
     (case quotient_of x of (a, b) \<Rightarrow>
        let e0 = log2floor a - log2floor b
        in if pow2 e0 \<le> x then e0 else e0 - 1)"

definition round_half_even :: "rat \<Rightarrow> int" where
  "round_half_even x =
     (let f = \<lfloor>x\<rfloor>; r = x - of_int f
      in if r < 1 / 2 then f
         else if 1 / 2 < r then f + 1
         else if even f then f else f + 1)"

definition f64_round :: "rat \<Rightarrow> rat" where
  "f64_round x =
     (if x = 0 then 0
      else let u = pow2 (exponent \<bar>x\<bar> - 52)
           in of_int (round_half_even (x / u)) * u)"

definition float64_of_int :: "int \<Rightarrow> rat" where
  "float64_of_int n = f64_round (of_int n)"

definition f64_add :: "rat \<Rightarrow> rat \<Rightarrow> rat" where
  "f64_add x y = f64_round (x + y)"

definition f64_sub :: "rat \<Rightarrow> rat \<Rightarrow> rat" where
  "f64_sub x y = f64_round (x - y)"

definition f64_mul :: "rat \<Rightarrow> rat \<Rightarrow> rat" where
  "f64_mul x y = f64_round (x * y)"

text \<open>Division by a divisor that is not zero.\<close>

definition f64_quot :: "rat \<Rightarrow> rat \<Rightarrow> rat" where
  "f64_quot x y = f64_round (x / y)"

text \<open>
  The conversions \<^verbatim>\<open>int(f)\<close> and \<^verbatim>\<open>time.Duration(f)\<close> drop the fraction
  (truncation toward zero). For a float beyond the 64-bit range Go's result depends on
  the machine; the model has no such bound, so it says nothing about percentiles or
  deviations of that size.
\<close>

definition int_of_float64 :: "rat \<Rightarrow> int" where
  "int_of_float64 x = (if 0 \<le> x then \<lfloor>x\<rfloor> else - \<lfloor>- x\<rfloor>)"

text \<open>
  \<^verbatim>\<open>math.Sqrt\<close> returns the correctly rounded square root. With \<open>u\<close> the unit in
  the last place of the result, the integer square root of \<open>\<lfloor>x / u\<^sup>2\<rfloor>\<close> is the
  significand rounded down, and comparing \<open>x / u\<^sup>2\<close> with the square of the midpoint
  decides the rounding.
\<close>

function isqrt :: "int \<Rightarrow> int" where
  "isqrt n =
     (if n < 4 then (if n \<le> 0 then 0 else 1)
      else let r = 2 * isqrt (n div 4)
           in if (r + 1) * (r + 1) \<le> n then r + 1 else r)"
  by pat_completeness auto
termination
  by (relation "measure nat") auto

declare isqrt.simps [simp del]

definition math_Sqrt :: "rat \<Rightarrow> rat" where
  "math_Sqrt x =
     (if x \<le> 0 then 0
      else let u = pow2 (exponent x div 2 - 52);
               y = x / (u * u);
               m = isqrt \<lfloor>y\<rfloor>;
               mid = of_int (m * m + m) + 1 / 4
           in (if y < mid \<or> (y = mid \<and> even m) then of_int m else of_int (m + 1)) * u)"

text \<open>
  A division whose divisor may be zero yields an infinity or a NaN instead of a
  panic, so a \<^verbatim>\<open>float64\<close> that comes out of one is a value of this type. Zero
  has no sign here, so a zero divided by a negative number is the plain zero.
\<close>

datatype float64 = Finite rat | PosInf | NegInf | NaN

definition f64_div :: "rat \<Rightarrow> rat \<Rightarrow> float64" where
  "f64_div x y =
     (if y = 0 then (if x = 0 then NaN else if 0 < x then PosInf else NegInf)
      else Finite (f64_quot x y))"

fun f64_times :: "float64 \<Rightarrow> rat \<Rightarrow> float64" where
  "f64_times (Finite x) y = Finite (f64_mul x y)"
| "f64_times PosInf y = (if y = 0 then NaN else if 0 < y then PosInf else NegInf)"
| "f64_times NegInf y = (if y = 0 then NaN else if 0 < y then NegInf else PosInf)"
| "f64_times NaN y = NaN"

text \<open>
  \<^verbatim>\<open>Duration.Seconds\<close> and \<^verbatim>\<open>Duration.Milliseconds\<close> of package
  \<^verbatim>\<open>time\<close>: the first adds the whole seconds and the nanosecond remainder as
  floats, the second is an integer division.
\<close>

definition Seconds :: "Duration \<Rightarrow> rat" where
  "Seconds d =
     f64_add (float64_of_int (d sdiv Second))
             (f64_quot (float64_of_int (d smod Second)) 1000000000)"

definition Milliseconds :: "Duration \<Rightarrow> int" where
  "Milliseconds d = d sdiv Millisecond"

subsection \<open>Errors and strings\<close>

text \<open>
  A non-nil Go \<^verbatim>\<open>error\<close>. The program looks at three things only: whether the
  value implements \<^verbatim>\<open>net.Error\<close>, then its answers to \<^verbatim>\<open>Timeout()\<close> and
  \<^verbatim>\<open>Temporary()\<close>, and its message \<^verbatim>\<open>Error()\<close>.
\<close>

datatype go_error =
    PlainError string
  | NetError bool bool string

fun Error_msg :: "go_error \<Rightarrow> string" where
  "Error_msg (PlainError m) = m"
| "Error_msg (NetError timeout temporary m) = m"

text \<open>\<^verbatim>\<open>strings.Contains\<close>: the second string occurs in the first as a contiguous run.\<close>

fun hasPrefix :: "string \<Rightarrow> string \<Rightarrow> bool" where
  "hasPrefix s [] = True"
| "hasPrefix [] (c # cs) = False"
| "hasPrefix (x # xs) (c # cs) = (x = c \<and> hasPrefix xs cs)"

fun Contains :: "string \<Rightarrow> string \<Rightarrow> bool" where
  "Contains [] substr = (substr = [])"
| "Contains (x # xs) substr = (hasPrefix (x # xs) substr \<or> Contains xs substr)"

section \<open>Data model of the program\<close>

record Result =
  StatusCode :: int
  Duration :: Duration
  Error :: "go_error option"

record ErrorDetail =
  Count :: int
  Message :: string
  Code :: int

record Report =
  TotalTime :: Duration
  TotalRequests :: int
  StatusCodes :: "int \<rightharpoonup> int"
  Errors :: int
  Durations :: "Duration list"
  MinDuration :: Duration
  MaxDuration :: Duration
  AvgDuration :: Duration
  RPS :: float64
  StdDeviation :: Duration
  ErrorDetails :: "string \<rightharpoonup> ErrorDetail"

section \<open>The error classifier\<close>

fun netTimeout :: "go_error \<Rightarrow> bool" where
  "netTimeout (PlainError m) = False"
| "netTimeout (NetError timeout temporary m) = timeout"

fun netTemporary :: "go_error \<Rightarrow> bool" where
  "netTemporary (PlainError m) = False"
| "netTemporary (NetError timeout temporary m) = temporary"

text \<open>The argument is \<open>None\<close> for a nil error.\<close>

definition classifyErrorToHTTPStatus :: "go_error option \<Rightarrow> int" where
  "classifyErrorToHTTPStatus err =
     (case err of
        None \<Rightarrow> 200
      | Some e \<Rightarrow>
          if netTimeout e then 408
          else if netTemporary e then 503
          else
            let errMsg = Error_msg e
            in if Contains errMsg ''connection refused'' then 503
               else if Contains errMsg ''no such host'' \<or>
                       Contains errMsg ''lookup'' \<and> Contains errMsg ''no such host'' then 404
               else if Contains errMsg ''certificate'' \<or> Contains errMsg ''x509'' then 495
               else if Contains errMsg ''connection reset'' then 500
               else if Contains errMsg ''TLS handshake timeout'' then 408
               else if Contains errMsg ''stopped after'' \<and> Contains errMsg ''redirects'' then 310
               else if Contains errMsg ''EOF'' then 500
               else if Contains errMsg ''connection closed'' then 500
               else if Contains errMsg ''context deadline exceeded'' then 408
               else if Contains errMsg ''dial tcp'' \<and> Contains errMsg ''connection refused'' then 503
               else if Contains errMsg ''dial tcp'' \<and> Contains errMsg ''i/o timeout'' then 408
               else if Contains errMsg ''net/http'' then 500
               else 500)"

subsection \<open>The order of the classifier's checks\<close>

text \<open>
  A classifier given as a table: the checks are tried from the head of the list and the
  first one that holds decides the code.
\<close>

fun first_match :: "((go_error \<Rightarrow> bool) \<times> int) list \<Rightarrow> int \<Rightarrow> go_error \<Rightarrow> int" where
  "first_match [] fallback e = fallback"
| "first_match ((check, code) # rest) fallback e =
     (if check e then code else first_match rest fallback e)"

definition mentions :: "string \<Rightarrow> go_error \<Rightarrow> bool" where
  "mentions text e = Contains (Error_msg e) text"

text \<open>The order in which \<^verbatim>\<open>classifyErrorToHTTPStatus\<close> makes its checks.\<close>

definition code_priority :: "((go_error \<Rightarrow> bool) \<times> int) list" where
  "code_priority =
     [(netTimeout, 408),
      (netTemporary, 503),
      (mentions ''connection refused'', 503),
      (mentions ''no such host'', 404),
      (\<lambda>e. mentions ''certificate'' e \<or> mentions ''x509'' e, 495),
      (mentions ''connection reset'', 500),
      (mentions ''TLS handshake timeout'', 408),
      (\<lambda>e. mentions ''stopped after'' e \<and> mentions ''redirects'' e, 310),
      (mentions ''EOF'', 500),
      (mentions ''connection closed'', 500),
      (mentions ''context deadline exceeded'', 408),
      (\<lambda>e. mentions ''dial tcp'' e \<and> mentions ''i/o timeout'' e, 408)]"

text \<open>
  The order as the specification lists it: timeout, temporary, connection refused, host
  resolution, certificate, reset or EOF, excessive redirects, and 500 otherwise. The
  timeout category is the one the specification describes (a timeout of the network
  layer, deadline exceeded, I/O timeout, handshake timeout).
\<close>

definition claimed_priority :: "((go_error \<Rightarrow> bool) \<times> int) list" where
  "claimed_priority =
     [(\<lambda>e. netTimeout e \<or> mentions ''context deadline exceeded'' e \<or>
            mentions ''i/o timeout'' e \<or> mentions ''TLS handshake timeout'' e, 408),
      (netTemporary, 503),
      (mentions ''connection refused'', 503),
      (mentions ''no such host'', 404),
      (\<lambda>e. mentions ''certificate'' e \<or> mentions ''x509'' e, 495),
      (\<lambda>e. mentions ''connection reset'' e \<or> mentions ''EOF'' e, 500),
      (\<lambda>e. mentions ''stopped after'' e \<and> mentions ''redirects'' e, 310)]"

section \<open>The request executor\<close>

text \<open>
  What the HTTP library and the clock give one attempt: \<^verbatim>\<open>http.NewRequest\<close>
  fails, or \<^verbatim>\<open>client.Do\<close> fails after the measured time, or it returns a
  response with a status code after the measured time.
\<close>

datatype attempt =
    NewRequestFails go_error
  | DoFails go_error Duration
  | Responds int Duration

text \<open>
  On each path \<^verbatim>\<open>makeRequest\<close> sends exactly one \<^verbatim>\<open>Result\<close> to the
  channel; the model returns it. Fields left out of a Go struct literal are zero. The
  configuration is only handed on to the HTTP library, whose answer is the argument here.
\<close>

fun makeRequest :: "attempt \<Rightarrow> Result" where
  "makeRequest (NewRequestFails err) =
     \<lparr> StatusCode = classifyErrorToHTTPStatus (Some err), Duration = 0, Error = Some err \<rparr>"
| "makeRequest (DoFails err duration) =
     \<lparr> StatusCode = classifyErrorToHTTPStatus (Some err), Duration = duration, Error = Some err \<rparr>"
| "makeRequest (Responds statusCode duration) =
     \<lparr> StatusCode = statusCode, Duration = duration, Error = None \<rparr>"

section \<open>Statistics\<close>

text \<open>
  \<^verbatim>\<open>calculatePercentile\<close> sorts the slice it is given with \<^verbatim>\<open>sort.Slice\<close>,
  that is, in place: the backing array is the one the caller's slice points to. The
  model therefore returns the contents of that array after the call together with the
  result. An index outside the slice is a panic.
\<close>

definition calculatePercentile ::
    "Duration list \<Rightarrow> rat \<Rightarrow> Duration list \<times> (panic + Duration)" where
  "calculatePercentile durations percentile =
     (if length durations = 0 then (durations, Inr 0)
      else
        let durations = sort durations;
            index = int_of_float64
              (f64_quot (f64_mul (float64_of_int (int (length durations))) percentile) 100);
            index = (if index \<ge> int (length durations)
                     then int (length durations) - 1 else index)
        in (durations,
            if 0 \<le> index \<and> index < int (length durations)
            then Inr (durations ! nat index) else Inl IndexOutOfRange))"

text \<open>
  \<^verbatim>\<open>calculateStdDeviation\<close> only reads the slice. Past the guard the divisor
  \<^verbatim>\<open>float64(len(durations))\<close> is not zero.
\<close>

definition calculateStdDeviation :: "Duration list \<Rightarrow> Duration \<Rightarrow> Duration" where
  "calculateStdDeviation durations avg =
     (if length durations = 0 then 0
      else
        let sumSquares = foldl (\<lambda>sumSquares d.
                let diff = f64_sub (Seconds d) (Seconds avg)
                in f64_add sumSquares (f64_mul diff diff)) 0 durations;
            variance = f64_quot sumSquares (float64_of_int (int (length durations)))
        in int_of_float64 (f64_mul (math_Sqrt variance) (float64_of_int Second)))"

section \<open>The aggregator\<close>

definition initialReport :: Report where
  "initialReport =
     \<lparr> TotalTime = 0, TotalRequests = 0, StatusCodes = Map.empty, Errors = 0,
       Durations = [], MinDuration = Hour, MaxDuration = 0, AvgDuration = 0,
       RPS = Finite 0, StdDeviation = 0, ErrorDetails = Map.empty \<rparr>"

text \<open>One iteration of the loop over the result channel.\<close>

definition countStatus :: "Report \<Rightarrow> Result \<Rightarrow> Report" where
  "countStatus report result =
     report\<lparr> StatusCodes := (StatusCodes report)
       (StatusCode result \<mapsto>
          (case StatusCodes report (StatusCode result) of None \<Rightarrow> 0 | Some c \<Rightarrow> c) + 1) \<rparr>"

definition recordError :: "Report \<Rightarrow> Result \<Rightarrow> Report" where
  "recordError report result =
     (case Error result of
        None \<Rightarrow> report
      | Some err \<Rightarrow>
          let errMsg = Error_msg err;
              detail = (case ErrorDetails report errMsg of
                          Some d \<Rightarrow> d
                        | None \<Rightarrow> \<lparr> Count = 0, Message = errMsg, Code = StatusCode result \<rparr>);
              detail = detail\<lparr> Count := Count detail + 1 \<rparr>
          in report\<lparr> Errors := Errors report + 1,
                     ErrorDetails := (ErrorDetails report)(errMsg \<mapsto> detail) \<rparr>)"

definition processDuration :: "Report \<Rightarrow> Result \<Rightarrow> Report" where
  "processDuration report result =
     (if Duration result > 0 then
        let report = report\<lparr> Durations := Durations report @ [Duration result] \<rparr>;
            report = (if Duration result < MinDuration report
                      then report\<lparr> MinDuration := Duration result \<rparr> else report);
            report = (if Duration result > MaxDuration report
                      then report\<lparr> MaxDuration := Duration result \<rparr> else report)
        in report
      else report)"

definition aggregate :: "Report \<Rightarrow> Result \<Rightarrow> Report" where
  "aggregate report result =
     processDuration
       (recordError
          (countStatus (report\<lparr> TotalRequests := TotalRequests report + 1 \<rparr>) result)
          result)
       result"

text \<open>
  \<^verbatim>\<open>collectResults\<close> drains the channel, here the list of results in arrival
  order, and then finishes the report. \<open>elapsed\<close> is the reading
  \<^verbatim>\<open>time.Since(startTime)\<close> taken when the channel is closed.
\<close>

definition collectResults :: "Result list \<Rightarrow> Duration \<Rightarrow> panic + Report" where
  "collectResults results elapsed =
     (let report = foldl aggregate initialReport results;
          report = report\<lparr> TotalTime := elapsed \<rparr>;
          total = foldl (\<lambda>total d. wrap64 (total + d)) 0 (Durations report)
      in case (if length (Durations report) > 0
               then go_div total (int (length (Durations report)))
               else Inr (AvgDuration report)) of
           Inl p \<Rightarrow> Inl p
         | Inr avg \<Rightarrow>
             let report = report\<lparr> AvgDuration := avg \<rparr>;
                 report = report\<lparr> RPS :=
                   f64_div (float64_of_int (TotalRequests report)) (Seconds (TotalTime report)) \<rparr>;
                 report = report\<lparr> StdDeviation :=
                   calculateStdDeviation (Durations report) (AvgDuration report) \<rparr>
             in Inr report)"

subsection \<open>Consistency of the counters\<close>

text \<open>
  The sums the report is checked against: the counts of the status-code histogram and
  the counts of the error details. A Go map has finitely many keys, and only then do
  the sums mean anything, so finiteness is part of the invariant.
\<close>

definition histogram_total :: "(int \<rightharpoonup> int) \<Rightarrow> int" where
  "histogram_total m = (\<Sum>k\<in>dom m. the (m k))"

definition error_total :: "(string \<rightharpoonup> ErrorDetail) \<Rightarrow> int" where
  "error_total m = (\<Sum>k\<in>dom m. Count (the (m k)))"

definition report_inv :: "Report \<Rightarrow> bool" where
  "report_inv report \<longleftrightarrow>
     finite (dom (StatusCodes report)) \<and> finite (dom (ErrorDetails report)) \<and>
     histogram_total (StatusCodes report) = TotalRequests report \<and>
     Errors report = error_total (ErrorDetails report)"



section \<open>Configuration and dispatch\<close>

record Config =
  URL :: string
  Requests :: int
  Concurrency :: int
  Timeout :: Duration
  Method :: string
  Headers :: "string \<rightharpoonup> string"
  Body :: string
  Format :: string

text \<open>
  The goroutines of \<^verbatim>\<open>executeLoadTest\<close> run interleaved; every channel operation
  is one atomic step. A task is at one of five places of its body:
  before \<^verbatim>\<open>semaphore <- struct{}{}\<close>, holding a token before or inside
  \<^verbatim>\<open>makeRequest\<close>, past \<^verbatim>\<open>makeRequest\<close> with its result sent, past
  \<^verbatim>\<open>progress <- 1\<close>, and past \<^verbatim>\<open><-semaphore\<close>.
\<close>

datatype task = Waiting | Holding | Delivered | Signalled | Released

record dispatch =
  tasks :: "task list"
  semaphore :: nat
  results :: "Result list"
  progress :: nat

definition initialDispatch :: dispatch where
  "initialDispatch = \<lparr> tasks = [], semaphore = 0, results = [], progress = 0 \<rparr>"

text \<open>
  The steps of a run with \<open>requests\<close> tasks to start and a semaphore channel of
  capacity \<open>capacity\<close>. The loop starts the tasks one by one. A send to the
  semaphore needs a free slot of the buffer; a channel without buffer hands the token
  from a sender to a receiver that is ready at the same time. What the network answers
  to a task is not determined. The channels \<^verbatim>\<open>results\<close> and
  \<^verbatim>\<open>progress\<close> have room for one item per task, so sending to them never waits.
\<close>

inductive step :: "nat \<Rightarrow> nat \<Rightarrow> dispatch \<Rightarrow> dispatch \<Rightarrow> bool"
  for requests capacity :: nat where
  spawn:
    "length (tasks s) < requests \<Longrightarrow>
     step requests capacity s (s\<lparr> tasks := tasks s @ [Waiting] \<rparr>)"
| acquire:
    "i < length (tasks s) \<Longrightarrow> tasks s ! i = Waiting \<Longrightarrow> semaphore s < capacity \<Longrightarrow>
     step requests capacity s
       (s\<lparr> tasks := (tasks s)[i := Holding], semaphore := semaphore s + 1 \<rparr>)"
| handoff:
    "capacity = 0 \<Longrightarrow> i < length (tasks s) \<Longrightarrow> tasks s ! i = Waiting \<Longrightarrow>
     j < length (tasks s) \<Longrightarrow> tasks s ! j = Signalled \<Longrightarrow>
     step requests capacity s (s\<lparr> tasks := (tasks s)[i := Holding, j := Released] \<rparr>)"
| request:
    "i < length (tasks s) \<Longrightarrow> tasks s ! i = Holding \<Longrightarrow>
     step requests capacity s
       (s\<lparr> tasks := (tasks s)[i := Delivered], results := results s @ [makeRequest a] \<rparr>)"
| signal:
    "i < length (tasks s) \<Longrightarrow> tasks s ! i = Delivered \<Longrightarrow>
     step requests capacity s
       (s\<lparr> tasks := (tasks s)[i := Signalled], progress := progress s + 1 \<rparr>)"
| release:
    "i < length (tasks s) \<Longrightarrow> tasks s ! i = Signalled \<Longrightarrow> 0 < semaphore s \<Longrightarrow>
     step requests capacity s
       (s\<lparr> tasks := (tasks s)[i := Released], semaphore := semaphore s - 1 \<rparr>)"

definition reachable :: "nat \<Rightarrow> nat \<Rightarrow> dispatch \<Rightarrow> bool" where
  "reachable requests capacity s = (step requests capacity)\<^sup>*\<^sup>* initialDispatch s"

text \<open>A task holds a token from its send to the semaphore until its receive from it.\<close>

fun holds_token :: "task \<Rightarrow> bool" where
  "holds_token Waiting = False"
| "holds_token Holding = True"
| "holds_token Delivered = True"
| "holds_token Signalled = True"
| "holds_token Released = False"

definition holders :: "dispatch \<Rightarrow> nat" where
  "holders s = length (filter holds_token (tasks s))"

definition in_flight :: "dispatch \<Rightarrow> nat" where
  "in_flight s = length (filter (\<lambda>t. t = Holding) (tasks s))"

text \<open>A task has delivered its result once it is past \<^verbatim>\<open>makeRequest\<close>.\<close>

fun past_request :: "task \<Rightarrow> bool" where
  "past_request Waiting = False"
| "past_request Holding = False"
| "past_request Delivered = True"
| "past_request Signalled = True"
| "past_request Released = True"

definition delivered :: "dispatch \<Rightarrow> nat" where
  "delivered s = length (filter past_request (tasks s))"

text \<open>What every reachable state of a run satisfies.\<close>

definition dispatch_inv :: "nat \<Rightarrow> dispatch \<Rightarrow> bool" where
  "dispatch_inv capacity s \<longleftrightarrow>
     holders s \<le> capacity \<and> semaphore s = holders s"

text \<open>
  \<^verbatim>\<open>main\<close> after the flags are parsed, up to the point where the tasks are about
  to start. \<^verbatim>\<open>make\<close> panics for a negative channel size. It also panics for a
  size too large to allocate, which depends on the machine and is not modelled.
\<close>

datatype start = ConfigurationError string | Panicked panic | Dispatching nat nat dispatch

definition executeLoadTest_start :: "Config \<Rightarrow> start" where
  "executeLoadTest_start config =
     (if Requests config < 0 then Panicked MakechanSizeOutOfRange
      else if Concurrency config < 0 then Panicked MakechanSizeOutOfRange
      else Dispatching (nat (Requests config)) (nat (Concurrency config)) initialDispatch)"

definition main_start :: "Config \<Rightarrow> start" where
  "main_start config =
     (if URL config = [] \<or> Requests config = 0
      then ConfigurationError ''URL and number of requests are required''
      else executeLoadTest_start config)"

section \<open>Rendering\<close>

subsection \<open>Formatting verbs\<close>

text \<open>
  \<^verbatim>\<open>%d\<close> prints an integer in decimal. \<^verbatim>\<open>%.2f\<close> prints the exact value of the
  float rounded to two decimals, ties to even, and spells out infinities and NaN.
\<close>

function digits :: "int \<Rightarrow> string" where
  "digits n =
     (if n < 10 then [''0123456789'' ! nat n]
      else digits (n div 10) @ [''0123456789'' ! nat (n mod 10)])"
  by pat_completeness auto
termination
  by (relation "measure nat") auto

declare digits.simps [simp del]

definition fmt_d :: "int \<Rightarrow> string" where
  "fmt_d n = (if n < 0 then CHR ''-'' # digits (- n) else digits n)"

fun fmt_2f :: "float64 \<Rightarrow> string" where
  "fmt_2f (Finite x) =
     (let n = round_half_even (\<bar>x\<bar> * 100)
      in (if x < 0 then ''-'' else []) @ digits (n div 100) @ ''.'' @
         digits (n mod 100 div 10) @ digits (n mod 10))"
| "fmt_2f PosInf = ''+Inf''"
| "fmt_2f NegInf = ''-Inf''"
| "fmt_2f NaN = ''NaN''"

text \<open>The share of \<open>count\<close> in \<open>whole\<close>, in percent, as the renderers compute it.\<close>

definition percentage :: "int \<Rightarrow> int \<Rightarrow> float64" where
  "percentage count whole =
     f64_times (f64_div (float64_of_int count) (float64_of_int whole)) 100"

subsection \<open>The plain report\<close>

definition getStatusCodeDescription :: "int \<Rightarrow> string" where
  "getStatusCodeDescription code =
     (if code = 0 then ''Erro n'' @ [CHR 0xC3, CHR 0xA3] @ ''o identificado''
      else if code = 200 then ''OK''
      else if code = 201 then ''Created''
      else if code = 204 then ''No Content''
      else if code = 310 then ''Too Many Redirects''
      else if code = 400 then ''Bad Request''
      else if code = 401 then ''Unauthorized''
      else if code = 403 then ''Forbidden''
      else if code = 404 then ''Not Found''
      else if code = 408 then ''Request Timeout''
      else if code = 429 then ''Too Many Requests''
      else if code = 495 then ''SSL Certificate Error''
      else if code = 500 then ''Internal Server Error''
      else if code = 502 then ''Bad Gateway''
      else if code = 503 then ''Service Unavailable''
      else if code = 504 then ''Gateway Timeout''
      else ''Status Code '' @ fmt_d code)"

text \<open>
  What \<^verbatim>\<open>printReport\<close> writes, one value per \<^verbatim>\<open>Printf\<close> that has arguments,
  holding those arguments; titles and rules, which are constant text, are left out.
\<close>

datatype status_kind = FailureStatus | RedirectStatus | SuccessStatus

datatype line =
    PrintTotalTime rat
  | PrintTotalRequests int
  | PrintRPS float64
  | PrintMinimum Duration
  | PrintMaximum Duration
  | PrintAverage Duration
  | PrintPercentile nat Duration
  | PrintNoMeasurements
  | PrintStatus200 int float64
  | PrintStatus status_kind int string int float64
  | PrintTotalErrors int float64

text \<open>
  \<^verbatim>\<open>printReport\<close> receives the report by value, but the copy's
  \<^verbatim>\<open>Durations\<close> slice points to the same array as the caller's. Each call
  \<^verbatim>\<open>calculatePercentile(report.Durations, p)\<close> therefore leaves the caller's
  collection in the order the call gave it, and the model returns the report as the
  caller finds it afterwards.
\<close>

definition percentileLine :: "nat \<Rightarrow> Report \<Rightarrow> panic + line \<times> Report" where
  "percentileLine p report =
     (case calculatePercentile (Durations report) (of_nat p) of
        (durations, Inl e) \<Rightarrow> Inl e
      | (durations, Inr v) \<Rightarrow> Inr (PrintPercentile p v, report\<lparr> Durations := durations \<rparr>))"

definition responseTimeStats :: "Report \<Rightarrow> panic + line list \<times> Report" where
  "responseTimeStats report =
     (if length (Durations report) > 0 then
        case percentileLine 50 report of Inl e \<Rightarrow> Inl e | Inr (p50, report) \<Rightarrow>
        case percentileLine 90 report of Inl e \<Rightarrow> Inl e | Inr (p90, report) \<Rightarrow>
        case percentileLine 95 report of Inl e \<Rightarrow> Inl e | Inr (p95, report) \<Rightarrow>
        case percentileLine 99 report of Inl e \<Rightarrow> Inl e | Inr (p99, report) \<Rightarrow>
          Inr ([PrintMinimum (MinDuration report), PrintMaximum (MaxDuration report),
                PrintAverage (AvgDuration report), p50, p90, p95, p99], report)
      else Inr ([PrintNoMeasurements], report))"

definition statusLine :: "Report \<Rightarrow> int \<Rightarrow> line" where
  "statusLine report code =
     (let count = (case StatusCodes report code of None \<Rightarrow> 0 | Some c \<Rightarrow> c);
          share = percentage count (TotalRequests report);
          kind = (if code \<ge> 400 \<or> code = 0 then FailureStatus
                  else if code \<ge> 300 then RedirectStatus else SuccessStatus)
      in PrintStatus kind code (getStatusCodeDescription code) count share)"

definition statusLines :: "Report \<Rightarrow> line list" where
  "statusLines report =
     (let codes = sorted_list_of_set (dom (StatusCodes report));
          successCount = (case StatusCodes report 200 of None \<Rightarrow> 0 | Some c \<Rightarrow> c);
          successRate = percentage successCount (TotalRequests report)
      in PrintStatus200 successCount successRate #
         map (statusLine report) (filter (\<lambda>code. code \<noteq> 200) codes))"

definition printReport :: "Report \<Rightarrow> panic + line list \<times> Report" where
  "printReport report =
     (case responseTimeStats report of
        Inl e \<Rightarrow> Inl e
      | Inr (stats, report') \<Rightarrow>
          Inr ([PrintTotalTime (Seconds (TotalTime report)),
                PrintTotalRequests (TotalRequests report),
                PrintRPS (RPS report)] @
               stats @ statusLines report' @
               (if Errors report' > 0
                then [PrintTotalErrors (Errors report')
                        (percentage (Errors report') (TotalRequests report'))]
                else []),
               report'))"

subsection \<open>The CSV export\<close>

text \<open>
  \<^verbatim>\<open>CSVExporter.Export\<close>. Go visits the keys of a map in an order of its own
  choice; \<open>order\<close> is the order in which this call visits the status codes.
\<close>

definition newline :: string where
  "newline = [CHR 0x0A]"

definition CSVExporter_Export :: "int list \<Rightarrow> Report \<Rightarrow> string" where
  "CSVExporter_Export order r =
     ''Total Time (s),Total Requests,RPS,Min Duration (ms),Max Duration (ms),Avg Duration (ms),Errors''
       @ newline @
     fmt_2f (Finite (Seconds (TotalTime r))) @ '','' @
     fmt_d (TotalRequests r) @ '','' @
     fmt_2f (RPS r) @ '','' @
     fmt_2f (Finite (float64_of_int (Milliseconds (MinDuration r)))) @ '','' @
     fmt_2f (Finite (float64_of_int (Milliseconds (MaxDuration r)))) @ '','' @
     fmt_2f (Finite (float64_of_int (Milliseconds (AvgDuration r)))) @ '','' @
     fmt_d (Errors r) @ newline @
     newline @ ''Status Code Distribution'' @ newline @
     ''Code,Count,Percentage'' @ newline @
     concat (map (\<lambda>code.
        let count = (case StatusCodes r code of None \<Rightarrow> 0 | Some c \<Rightarrow> c)
        in fmt_d code @ '','' @ fmt_d count @ '','' @
           fmt_2f (percentage count (TotalRequests r)) @ newline) order)"

section \<open>Properties of the aggregator\<close>

subsection \<open>Sums over a map after one update\<close>

lemma sum_dom_upd:
  fixes f :: "'v \<Rightarrow> int"
  assumes "finite (dom m)"
  shows "(\<Sum>x\<in>dom (m(k \<mapsto> v)). f (the ((m(k \<mapsto> v)) x))) =
         f v + (\<Sum>x\<in>dom m - {k}. f (the (m x)))"
proof -
  have "dom (m(k \<mapsto> v)) = insert k (dom m - {k})" by auto
  moreover have "finite (dom m - {k})" using assms by simp
  ultimately show ?thesis by (simp add: sum.insert_remove)
qed

lemma sum_dom_split:
  fixes f :: "'v \<Rightarrow> int"
  assumes "finite (dom m)"
  shows "(\<Sum>x\<in>dom m. f (the (m x))) =
         (case m k of None \<Rightarrow> 0 | Some v \<Rightarrow> f v) + (\<Sum>x\<in>dom m - {k}. f (the (m x)))"
proof (cases "m k")
  case None
  then have "dom m - {k} = dom m" by auto
  with None show ?thesis by simp
next
  case (Some v)
  then have "k \<in> dom m" by auto
  with assms Some show ?thesis by (simp add: sum.remove)
qed

lemma countStatus_total:
  assumes "finite (dom (StatusCodes report))"
  shows "histogram_total (StatusCodes (countStatus report result)) =
         histogram_total (StatusCodes report) + 1"
  using sum_dom_upd [OF assms, of "\<lambda>c. c" "StatusCode result"]
        sum_dom_split [OF assms, of "\<lambda>c. c" "StatusCode result"]
  by (simp add: countStatus_def histogram_total_def split: option.splits)

lemma recordError_total:
  assumes fin: "finite (dom (ErrorDetails report))"
  shows "error_total (ErrorDetails (recordError report result)) - Errors (recordError report result) =
         error_total (ErrorDetails report) - Errors report"
proof (cases "Error result")
  case None
  then show ?thesis by (simp add: recordError_def)
next
  case (Some err)
  let ?k = "Error_msg err"
  note split = sum_dom_split [OF fin, of Count ?k]
  show ?thesis
  proof (cases "ErrorDetails report ?k")
    case None
    with Some split sum_dom_upd [OF fin, of Count ?k] show ?thesis
      by (simp add: recordError_def error_total_def Let_def)
  next
    case (Some d)
    with \<open>Error result = Some err\<close> split sum_dom_upd [OF fin, of Count ?k] show ?thesis
      by (simp add: recordError_def error_total_def Let_def)
  qed
qed

lemma aggregate_fields:
  "TotalRequests (aggregate report result) = TotalRequests report + 1"
  "StatusCodes (aggregate report result) = StatusCodes (countStatus report result)"
  "ErrorDetails (aggregate report result) = ErrorDetails (recordError report result)"
  "Errors (aggregate report result) = Errors (recordError report result)"
  by (simp_all add: aggregate_def processDuration_def recordError_def countStatus_def Let_def
        split: option.splits)

lemma aggregate_inv: "report_inv report \<Longrightarrow> report_inv (aggregate report result)"
  unfolding report_inv_def aggregate_fields
  using countStatus_total [of report result] recordError_total [of report result]
  by (auto simp: countStatus_def recordError_def Let_def split: option.splits)


lemma foldl_aggregate_inv:
  "report_inv report \<Longrightarrow> report_inv (foldl aggregate report stream)"
  by (induction stream arbitrary: report) (simp_all add: aggregate_inv)

lemma foldl_aggregate_TotalRequests:
  "TotalRequests (foldl aggregate report stream) = TotalRequests report + int (length stream)"
  by (induction stream arbitrary: report) (simp_all add: aggregate_fields)

lemma aggregate_durations:
  "Durations (aggregate report result) =
     Durations report @ (if 0 < Duration result then [Duration result] else [])"
  "MinDuration (aggregate report result) =
     (if 0 < Duration result then min (MinDuration report) (Duration result) else MinDuration report)"
  "MaxDuration (aggregate report result) =
     (if 0 < Duration result then max (MaxDuration report) (Duration result) else MaxDuration report)"
  "AvgDuration (aggregate report result) = AvgDuration report"
  by (auto simp: aggregate_def processDuration_def recordError_def countStatus_def Let_def
        split: option.splits)

lemma foldl_aggregate_Durations:
  "Durations (foldl aggregate report stream) =
     Durations report @ filter (\<lambda>d. 0 < d) (map Duration stream)"
  by (induction stream arbitrary: report) (simp_all add: aggregate_durations)

lemma foldl_aggregate_MinDuration:
  "MinDuration (foldl aggregate report stream) =
     Min (set (MinDuration report # filter (\<lambda>d. 0 < d) (map Duration stream)))"
proof (induction stream arbitrary: report)
  case Nil
  then show ?case by simp
next
  case (Cons r rs)
  show ?case
  proof (cases "0 < Duration r")
    case True
    have "Min (insert (min (MinDuration report) (Duration r)) (set (filter (\<lambda>d. 0 < d) (map Duration rs)))) =
          Min (insert (MinDuration report) (insert (Duration r) (set (filter (\<lambda>d. 0 < d) (map Duration rs)))))"
      by (cases "set (filter (\<lambda>d. 0 < d) (map Duration rs)) = {}") (simp_all add: min.assoc)
    with True Cons [of "aggregate report r"] show ?thesis
      by (simp add: aggregate_durations)
  next
    case False
    with Cons [of "aggregate report r"] show ?thesis
      by (simp add: aggregate_durations)
  qed
qed

lemma foldl_aggregate_MaxDuration:
  "MaxDuration (foldl aggregate report stream) =
     Max (set (MaxDuration report # filter (\<lambda>d. 0 < d) (map Duration stream)))"
proof (induction stream arbitrary: report)
  case Nil
  then show ?case by simp
next
  case (Cons r rs)
  show ?case
  proof (cases "0 < Duration r")
    case True
    have "Max (insert (max (MaxDuration report) (Duration r)) (set (filter (\<lambda>d. 0 < d) (map Duration rs)))) =
          Max (insert (MaxDuration report) (insert (Duration r) (set (filter (\<lambda>d. 0 < d) (map Duration rs)))))"
      by (cases "set (filter (\<lambda>d. 0 < d) (map Duration rs)) = {}") (simp_all add: max.assoc)
    with True Cons [of "aggregate report r"] show ?thesis
      by (simp add: aggregate_durations)
  next
    case False
    with Cons [of "aggregate report r"] show ?thesis
      by (simp add: aggregate_durations)
  qed
qed

lemma foldl_aggregate_AvgDuration:
  "AvgDuration (foldl aggregate report stream) = AvgDuration report"
  by (induction stream arbitrary: report) (simp_all add: aggregate_durations)

lemma collectResults_Inr:
  fixes stream elapsed
  defines "agg \<equiv> foldl aggregate initialReport stream"
  shows "\<exists>report. collectResults stream elapsed = Inr report \<and>
     TotalTime report = elapsed \<and> TotalRequests report = TotalRequests agg \<and>
     StatusCodes report = StatusCodes agg \<and> Errors report = Errors agg \<and>
     ErrorDetails report = ErrorDetails agg \<and> Durations report = Durations agg \<and>
     MinDuration report = MinDuration agg \<and> MaxDuration report = MaxDuration agg \<and>
     AvgDuration report =
       (if Durations agg = [] then 0
        else wrap64 (foldl (\<lambda>total d. wrap64 (total + d)) 0 (Durations agg)
                       sdiv int (length (Durations agg)))) \<and>
     StdDeviation report = calculateStdDeviation (Durations agg) (AvgDuration report)"
proof -
  have "AvgDuration agg = 0"
    by (simp add: agg_def foldl_aggregate_AvgDuration initialReport_def)
  then show ?thesis
    by (cases "Durations agg = []")
       (simp_all add: collectResults_def Let_def go_div_def agg_def [symmetric])
qed


lemma collectResults_Durations:
  assumes "collectResults stream elapsed = Inr report"
  shows "Durations report = filter (\<lambda>d. 0 < d) (map Duration stream)"
  using collectResults_Inr [of stream elapsed] assms
  by (auto simp: foldl_aggregate_Durations initialReport_def)

lemma report_inv_initial: "report_inv initialReport"
  by (simp add: report_inv_def initialReport_def histogram_total_def error_total_def)

subsection \<open>The counters of a report\<close>

text \<open>
  Claim C1. The report built from a stream of results counts every result once: the
  counts of its status-code histogram add up to \<open>TotalRequests\<close>, which is the
  length of the stream (the \<open>Requests\<close> of the run, one result per task), and \<open>Errors\<close> is the sum of \<open>Count\<close> over the error details. Both
  equalities hold for the empty report and every step of the loop keeps them.
\<close>
theorem aggregator_counts_consistent:
  "report_inv initialReport \<and>
   (\<forall>report result. report_inv report \<longrightarrow> report_inv (aggregate report result)) \<and>
   (\<exists>report. collectResults stream elapsed = Inr report \<and>
      histogram_total (StatusCodes report) = TotalRequests report \<and>
      TotalRequests report = int (length stream) \<and>
      Errors report = error_total (ErrorDetails report))"
proof -
  let ?agg = "foldl aggregate initialReport stream"
  have inv: "report_inv ?agg"
    by (rule foldl_aggregate_inv) (rule report_inv_initial)
  have len: "TotalRequests ?agg = int (length stream)"
    by (simp add: foldl_aggregate_TotalRequests initialReport_def)
  from collectResults_Inr [of stream elapsed] inv len
  have "\<exists>report. collectResults stream elapsed = Inr report \<and>
      histogram_total (StatusCodes report) = TotalRequests report \<and>
      TotalRequests report = int (length stream) \<and>
      Errors report = error_total (ErrorDetails report)"
    by (auto simp: report_inv_def)
  with report_inv_initial aggregate_inv show ?thesis by blast
qed

theorem aggregator_counts_consistent_witness:
  "report_inv initialReport \<and>
   report_inv (aggregate initialReport \<lparr> StatusCode = 200, Duration = 5000000, Error = None \<rparr>) \<and>
   (\<exists>report. collectResults
        [\<lparr> StatusCode = 200, Duration = 5000000, Error = None \<rparr>,
         \<lparr> StatusCode = 503, Duration = 0, Error = Some (PlainError ''connection refused'') \<rparr>]
        1000000000 = Inr report \<and>
      histogram_total (StatusCodes report) = 2 \<and> TotalRequests report = 2 \<and>
      Errors report = error_total (ErrorDetails report))"
  using aggregator_counts_consistent
    [of "[\<lparr> StatusCode = 200, Duration = 5000000, Error = None \<rparr>,
          \<lparr> StatusCode = 503, Duration = 0, Error = Some (PlainError ''connection refused'') \<rparr>]"
        1000000000]
  by auto

subsection \<open>A run in which no attempt was timed\<close>

text \<open>
  Claim C3. \<open>collectResults\<close> never panics, and when the report has no durations
  its average and its standard deviation are zero and every percentile of it is zero:
  the division behind the average is skipped, and both statistics functions return
  before they divide or index.
\<close>
theorem empty_durations_no_data:
  "\<exists>report. collectResults stream elapsed = Inr report \<and>
     (Durations report = [] \<longrightarrow>
        AvgDuration report = 0 \<and> StdDeviation report = 0 \<and>
        calculateStdDeviation (Durations report) (AvgDuration report) = 0 \<and>
        (\<forall>p. calculatePercentile (Durations report) p = ([], Inr 0)))"
  using collectResults_Inr [of stream elapsed]
  by (auto simp: calculateStdDeviation_def calculatePercentile_def)

lemma Duration_makeRequest_NewRequestFails [simp]:
  "Duration (makeRequest (NewRequestFails err)) = 0"
  by simp

theorem empty_durations_no_data_witness:
  "\<exists>report. collectResults [makeRequest (NewRequestFails (PlainError ''net/http: invalid method''))] 7
       = Inr report \<and>
     Durations report = [] \<and> AvgDuration report = 0 \<and> StdDeviation report = 0 \<and>
     calculatePercentile (Durations report) 99 = ([], Inr 0)"
proof -
  let ?rs = "[makeRequest (NewRequestFails (PlainError ''net/http: invalid method''))]"
  from empty_durations_no_data [of ?rs 7] obtain report where
    r: "collectResults ?rs 7 = Inr report"
    and e: "Durations report = [] \<longrightarrow>
        AvgDuration report = 0 \<and> StdDeviation report = 0 \<and>
        calculateStdDeviation (Durations report) (AvgDuration report) = 0 \<and>
        (\<forall>p. calculatePercentile (Durations report) p = ([], Inr 0))"
    by blast
  from collectResults_Durations [OF r] have "Durations report = []"
    by simp
  with r e show ?thesis by blast
qed

subsection \<open>Minimum and maximum\<close>

text \<open>
  Claim C10. For a stream of durations that are not negative (zero or a reading of
  \<^verbatim>\<open>time.Since\<close>), \<open>MinDuration\<close> of the report is
  the least of one hour and the non-zero durations of the stream, and
  \<open>MaxDuration\<close> the greatest of zero and those durations. So a report without
  durations has a minimum of one hour above a maximum of zero, the minimum is never
  above one hour, and when every duration is longer than an hour the recorded minimum
  is one hour, below the true one.
\<close>
theorem extrema_of_stream:
  assumes "\<forall>r\<in>set stream. 0 \<le> Duration r"
  shows "\<exists>report. collectResults stream elapsed = Inr report \<and>
     MinDuration report = Min (set (Hour # filter (\<lambda>d. d \<noteq> 0) (map Duration stream))) \<and>
     MaxDuration report = Max (set (0 # filter (\<lambda>d. d \<noteq> 0) (map Duration stream))) \<and>
     (Durations report = [] \<longrightarrow>
        MinDuration report = Hour \<and> MaxDuration report = 0 \<and>
        MaxDuration report < MinDuration report) \<and>
     MinDuration report \<le> Hour \<and>
     (Durations report \<noteq> [] \<and> (\<forall>d\<in>set (Durations report). Hour < d) \<longrightarrow>
        MinDuration report = Hour \<and> MinDuration report < Min (set (Durations report)))"
proof -
  let ?agg = "foldl aggregate initialReport stream"
  let ?ds = "filter (\<lambda>d. d \<noteq> 0) (map Duration stream)"
  from assms have flt: "filter (\<lambda>d. 0 < d) (map Duration stream) = ?ds"
    by (intro filter_cong) auto
  from collectResults_Inr [of stream elapsed] obtain report where
    r: "collectResults stream elapsed = Inr report"
    and ds: "Durations report = Durations ?agg"
    and mn: "MinDuration report = MinDuration ?agg"
    and mx: "MaxDuration report = MaxDuration ?agg"
    by blast
  have ds': "Durations report = ?ds"
    by (simp add: ds foldl_aggregate_Durations initialReport_def flt)
  have mn': "MinDuration report = Min (set (Hour # ?ds))"
    by (simp add: mn foldl_aggregate_MinDuration initialReport_def flt)
  have mx': "MaxDuration report = Max (set (0 # ?ds))"
    by (simp add: mx foldl_aggregate_MaxDuration initialReport_def flt)
  have le: "MinDuration report \<le> Hour"
    unfolding mn' by (rule Min_le) simp_all
  have empty: "Durations report = [] \<longrightarrow>
        MinDuration report = Hour \<and> MaxDuration report = 0 \<and>
        MaxDuration report < MinDuration report"
  proof
    assume "Durations report = []"
    with ds' have "?ds = []" by simp
    with mn' mx' show "MinDuration report = Hour \<and> MaxDuration report = 0 \<and>
        MaxDuration report < MinDuration report"
      by (simp add: Hour_def)
  qed
  have big: "Durations report \<noteq> [] \<and> (\<forall>d\<in>set (Durations report). Hour < d) \<longrightarrow>
        MinDuration report = Hour \<and> MinDuration report < Min (set (Durations report))"
  proof
    assume a: "Durations report \<noteq> [] \<and> (\<forall>d\<in>set (Durations report). Hour < d)"
    then have ne: "set ?ds \<noteq> {}" and gt: "\<forall>d\<in>set ?ds. Hour < d"
      using ds' by auto
    from ne gt have "Hour < Min (set ?ds)" by simp
    moreover from ne have "Min (set (Hour # ?ds)) = min Hour (Min (set ?ds))"
      by simp
    ultimately show "MinDuration report = Hour \<and> MinDuration report < Min (set (Durations report))"
      using mn' ds' by simp
  qed
  from r mn' mx' empty le big show ?thesis by blast
qed


theorem extrema_of_stream_witness:
  "0 \<le> Duration \<lparr> StatusCode = 200, Duration = 5000000, Error = None \<rparr> \<and>
   0 \<le> Duration \<lparr> StatusCode = 503, Duration = 0, Error = Some (PlainError ''connection refused'') \<rparr> \<and>
   0 \<le> Duration \<lparr> StatusCode = 200, Duration = 7000000, Error = None \<rparr> \<and>
   (\<exists>report. collectResults
        [\<lparr> StatusCode = 200, Duration = 5000000, Error = None \<rparr>,
         \<lparr> StatusCode = 503, Duration = 0, Error = Some (PlainError ''connection refused'') \<rparr>,
         \<lparr> StatusCode = 200, Duration = 7000000, Error = None \<rparr>] 1000000000 = Inr report \<and>
      MinDuration report = 5000000 \<and> MaxDuration report = 7000000)"
proof -
  let ?rs = "[\<lparr> StatusCode = 200, Duration = 5000000, Error = None \<rparr>,
              \<lparr> StatusCode = 503, Duration = 0, Error = Some (PlainError ''connection refused'') \<rparr>,
              \<lparr> StatusCode = 200, Duration = 7000000, Error = None \<rparr>]"
  have h: "\<forall>r\<in>set ?rs. 0 \<le> Duration r" by simp
  from extrema_of_stream [OF h, of 1000000000] show ?thesis
    by (auto simp: Hour_def)
qed

subsection \<open>Which durations are recorded\<close>

text \<open>
  Claim C5. A duration is zero or a reading of \<^verbatim>\<open>time.Since\<close> on the monotonic
  clock, so it is not negative. For such a result one step of the loop appends
  the duration and folds it into the minimum and the maximum exactly when it is not
  zero; otherwise the three fields stay as they are. A request that could not be
  constructed gives a result of duration zero, and a stream with such a result in it
  has the same durations, minimum, maximum, average, standard deviation and
  percentiles as the stream without it.
\<close>
theorem duration_recorded_iff_nonzero:
  assumes "0 \<le> Duration result"
  shows "(Duration result \<noteq> 0 \<longrightarrow>
            Durations (aggregate report result) = Durations report @ [Duration result] \<and>
            MinDuration (aggregate report result) = min (MinDuration report) (Duration result) \<and>
            MaxDuration (aggregate report result) = max (MaxDuration report) (Duration result)) \<and>
         (Duration result = 0 \<longrightarrow>
            Durations (aggregate report result) = Durations report \<and>
            MinDuration (aggregate report result) = MinDuration report \<and>
            MaxDuration (aggregate report result) = MaxDuration report) \<and>
         Duration (makeRequest (NewRequestFails err)) = 0 \<and>
         (\<exists>rep1 rep2.
            collectResults (xs @ makeRequest (NewRequestFails err) # ys) elapsed = Inr rep1 \<and>
            collectResults (xs @ ys) elapsed = Inr rep2 \<and>
            Durations rep1 = Durations rep2 \<and>
            MinDuration rep1 = MinDuration rep2 \<and>
            MaxDuration rep1 = MaxDuration rep2 \<and>
            AvgDuration rep1 = AvgDuration rep2 \<and>
            StdDeviation rep1 = StdDeviation rep2 \<and>
            (\<forall>p. calculatePercentile (Durations rep1) p =
                 calculatePercentile (Durations rep2) p))"
proof -
  let ?f = "makeRequest (NewRequestFails err)"
  let ?agg = "foldl aggregate initialReport (xs @ ?f # ys)"
  let ?agg' = "foldl aggregate initialReport (xs @ ys)"
  have step: "(Duration result \<noteq> 0 \<longrightarrow>
            Durations (aggregate report result) = Durations report @ [Duration result] \<and>
            MinDuration (aggregate report result) = min (MinDuration report) (Duration result) \<and>
            MaxDuration (aggregate report result) = max (MaxDuration report) (Duration result)) \<and>
         (Duration result = 0 \<longrightarrow>
            Durations (aggregate report result) = Durations report \<and>
            MinDuration (aggregate report result) = MinDuration report \<and>
            MaxDuration (aggregate report result) = MaxDuration report)"
    using assms by (simp add: aggregate_durations)
  have flt: "filter (\<lambda>d. 0 < d) (map Duration (xs @ ?f # ys)) =
             filter (\<lambda>d. 0 < d) (map Duration (xs @ ys))"
    by simp
  have ds: "Durations ?agg = Durations ?agg'"
    unfolding foldl_aggregate_Durations flt ..
  have mn: "MinDuration ?agg = MinDuration ?agg'"
    unfolding foldl_aggregate_MinDuration flt ..
  have mx: "MaxDuration ?agg = MaxDuration ?agg'"
    unfolding foldl_aggregate_MaxDuration flt ..
  from collectResults_Inr [of "xs @ ?f # ys" elapsed]
       collectResults_Inr [of "xs @ ys" elapsed] ds mn mx
  have "\<exists>rep1 rep2.
            collectResults (xs @ ?f # ys) elapsed = Inr rep1 \<and>
            collectResults (xs @ ys) elapsed = Inr rep2 \<and>
            Durations rep1 = Durations rep2 \<and>
            MinDuration rep1 = MinDuration rep2 \<and>
            MaxDuration rep1 = MaxDuration rep2 \<and>
            AvgDuration rep1 = AvgDuration rep2 \<and>
            StdDeviation rep1 = StdDeviation rep2 \<and>
            (\<forall>p. calculatePercentile (Durations rep1) p =
                 calculatePercentile (Durations rep2) p)"
    by (metis (no_types, lifting))
  with step show ?thesis by simp
qed

theorem duration_recorded_iff_nonzero_witness:
  "0 \<le> Duration \<lparr> StatusCode = 200, Duration = 5000000, Error = None \<rparr> \<and>
   Durations (aggregate initialReport \<lparr> StatusCode = 200, Duration = 5000000, Error = None \<rparr>)
     = [5000000] \<and>
   MinDuration (aggregate initialReport \<lparr> StatusCode = 200, Duration = 5000000, Error = None \<rparr>)
     = 5000000 \<and>
   MaxDuration (aggregate initialReport \<lparr> StatusCode = 200, Duration = 5000000, Error = None \<rparr>)
     = 5000000"
  using duration_recorded_iff_nonzero
    [of "\<lparr> StatusCode = 200, Duration = 5000000, Error = None \<rparr>" initialReport]
  by (simp add: initialReport_def Hour_def)

section \<open>Properties of the binary64 model\<close>

subsection \<open>Powers of two and the exponent\<close>

lemma pow2_powi: "pow2 e = 2 powi e"
  by (simp add: pow2_def power_int_def power_inverse [symmetric] inverse_eq_divide power_one_over)

lemma pow2_pos: "0 < pow2 e"
  by (simp add: pow2_powi zero_less_power_int)

lemma pow2_add: "pow2 (a + b) = pow2 a * pow2 b"
  by (simp add: pow2_powi power_int_add)

lemma pow2_mono: "a \<le> b \<Longrightarrow> pow2 a \<le> pow2 b"
  by (simp add: pow2_powi power_int_increasing)

lemma pow2_less_cancel: "pow2 a < pow2 b \<Longrightarrow> a < b"
  using pow2_mono [of b a] by (cases "a < b") auto

lemma pow2_nat: "0 \<le> e \<Longrightarrow> pow2 e = 2 ^ nat e"
  by (simp add: pow2_def)

lemma pow2_of_int: "0 \<le> e \<Longrightarrow> pow2 e = of_int (2 ^ nat e)"
  by (simp add: pow2_def)

lemma log2floor_nonneg: "0 \<le> log2floor n"
  by (induction n rule: log2floor.induct) (subst log2floor.simps, simp)

lemma log2floor_bounds:
  "1 \<le> n \<Longrightarrow> 2 ^ nat (log2floor n) \<le> n \<and> n < 2 ^ nat (log2floor n + 1)"
proof (induction n rule: log2floor.induct)
  case (1 n)
  show ?case
  proof (cases "n < 2")
    case True
    with "1.prems" show ?thesis by (subst (1 2) log2floor.simps) simp
  next
    case False
    then have "1 \<le> n div 2" by simp
    with "1.IH" False have ih: "2 ^ nat (log2floor (n div 2)) \<le> n div 2"
      "n div 2 < 2 ^ nat (log2floor (n div 2) + 1)" by simp_all
    have e: "log2floor n = 1 + log2floor (n div 2)"
      using False by (subst log2floor.simps) simp
    have n1: "nat (1 + log2floor (n div 2)) = Suc (nat (log2floor (n div 2)))"
      using log2floor_nonneg [of "n div 2"] by simp
    have n2: "nat (1 + log2floor (n div 2) + 1) = Suc (nat (log2floor (n div 2) + 1))"
      using log2floor_nonneg [of "n div 2"] by simp
    have "\<And>a b::int. a \<le> n div 2 \<Longrightarrow> n div 2 < b \<Longrightarrow> 2 * a \<le> n \<and> n < 2 * b"
      by linarith
    from this [OF ih] show ?thesis unfolding e n1 n2 by simp
  qed
qed

lemma exponent_bounds:
  assumes "0 < x"
  shows "pow2 (exponent x) \<le> x \<and> x < pow2 (exponent x + 1)"
proof -
  obtain a b where q: "quotient_of x = (a, b)" by (cases "quotient_of x")
  then have b: "0 < b" and x: "x = of_int a / of_int b"
    by (simp_all add: quotient_of_denom_pos quotient_of_div)
  with assms have a: "0 < a" by (simp add: zero_less_divide_iff)
  let ?la = "log2floor a" and ?lb = "log2floor b"
  from a b log2floor_bounds [of a] log2floor_bounds [of b]
  have ba: "2 ^ nat ?la \<le> a" "a < 2 ^ nat (?la + 1)"
   and bb: "2 ^ nat ?lb \<le> b" "b < 2 ^ nat (?lb + 1)" by simp_all
  have ra: "pow2 ?la \<le> of_int a" "of_int a < pow2 (?la + 1)"
    using ba log2floor_nonneg [of a] by (simp_all add: pow2_of_int)
  have rb: "pow2 ?lb \<le> of_int b" "of_int b < pow2 (?lb + 1)"
    using bb log2floor_nonneg [of b] by (simp_all add: pow2_of_int)
  have bpos: "(0::rat) < of_int b" using b by simp
  have up: "x < pow2 (?la - ?lb + 1)"
  proof -
    have "x * pow2 ?lb \<le> x * of_int b" using rb(1) assms by simp
    also have "\<dots> = of_int a" using bpos x by simp
    also have "\<dots> < pow2 (?la + 1)" by (rule ra(2))
    also have "\<dots> = pow2 (?la - ?lb + 1) * pow2 ?lb"
      by (simp add: pow2_add [symmetric])
    finally show ?thesis using pow2_pos [of ?lb] by simp
  qed
  have lo: "pow2 (?la - ?lb - 1) \<le> x"
  proof -
    have "pow2 (?la - ?lb - 1) * of_int b \<le> pow2 (?la - ?lb - 1) * pow2 (?lb + 1)"
      using rb(2) pow2_pos [of "?la - ?lb - 1"] by simp
    also have "\<dots> = pow2 ?la" by (simp add: pow2_add [symmetric])
    also have "\<dots> \<le> of_int a" by (rule ra(1))
    also have "\<dots> = x * of_int b" using bpos x by simp
    finally show ?thesis using bpos by simp
  qed
  show ?thesis
  proof (cases "pow2 (?la - ?lb) \<le> x")
    case True
    then have "exponent x = ?la - ?lb" by (simp add: exponent_def q)
    with True up show ?thesis by simp
  next
    case False
    then have "exponent x = ?la - ?lb - 1" by (simp add: exponent_def q)
    with False lo show ?thesis by simp
  qed
qed

lemma round_half_even_of_int [simp]: "round_half_even (of_int m) = m"
  by (simp add: round_half_even_def)

lemma round_half_even_ge: "of_int m \<le> y \<Longrightarrow> m \<le> round_half_even y"
proof -
  assume "of_int m \<le> y"
  then have "m \<le> \<lfloor>y\<rfloor>" by (simp add: le_floor_iff)
  then show ?thesis by (simp add: round_half_even_def Let_def)
qed

lemma round_half_even_less:
  assumes "y < of_int m - 1 / 2"
  shows "round_half_even y < m"
proof -
  from assms have "y < of_int m" by simp
  then have f: "\<lfloor>y\<rfloor> < m" by (simp add: floor_less_iff)
  show ?thesis
  proof (cases "\<lfloor>y\<rfloor> + 1 < m")
    case True
    then show ?thesis by (simp add: round_half_even_def Let_def)
  next
    case False
    with f have "\<lfloor>y\<rfloor> = m - 1" by simp
    with assms have "y - of_int \<lfloor>y\<rfloor> < 1 / 2" by simp
    with f show ?thesis by (simp add: round_half_even_def Let_def)
  qed
qed


text \<open>Below \<open>2^E\<close> with \<open>E \<le> 53\<close> the unit in the last place is \<open>1 / N\<close> for a power of two \<open>N \<ge> 2^(53 - E)\<close>.\<close>

lemma ulp_inverse:
  assumes "0 < x" and "x < pow2 E" and "E \<le> 53"
  obtains N :: int where "pow2 (exponent x - 52) = 1 / of_int N" and "2 ^ nat (53 - E) \<le> N"
proof -
  let ?e = "exponent x"
  from exponent_bounds [OF assms(1)] assms(2) have "pow2 ?e < pow2 E" by simp
  then have e: "?e < E" by (rule pow2_less_cancel)
  with assms(3) have nn: "0 \<le> 52 - ?e" by simp
  let ?N = "(2::int) ^ nat (52 - ?e)"
  have "pow2 (?e - 52) * pow2 (52 - ?e) = 1"
    by (simp add: pow2_add [symmetric] pow2_def)
  moreover have "pow2 (52 - ?e) = of_int ?N" using nn by (rule pow2_of_int)
  ultimately have "pow2 (?e - 52) = 1 / of_int ?N"
    by (simp add: field_simps)
  moreover have "(2::int) ^ nat (53 - E) \<le> ?N"
    using e by (intro power_increasing) simp_all
  ultimately show thesis by (rule that)
qed

lemma f64_round_of_int:
  assumes "0 \<le> k" and "k < 2 ^ 53"
  shows "f64_round (of_int k) = of_int k"
proof (cases "k = 0")
  case True
  then show ?thesis by (simp add: f64_round_def)
next
  case False
  with assms have pos: "(0::rat) < of_int k" by simp
  have "(of_int k :: rat) < of_int (2 ^ 53)" using assms(2) by (simp only: of_int_less_iff)
  then have "(of_int k :: rat) < pow2 53" by (simp add: pow2_def)
  from ulp_inverse [OF pos this] obtain N :: int
    where u: "pow2 (exponent (of_int k) - 52) = 1 / of_int N" and N: "2 ^ nat (53 - 53) \<le> N"
    by auto
  from N have Npos: "(0::rat) < of_int N" by simp
  have y: "(of_int k :: rat) / (1 / of_int N) = of_int (k * N)" by simp
  have "f64_round (of_int k) =
        of_int (round_half_even (of_int k / (1 / of_int N))) * (1 / of_int N)"
    using pos by (simp add: f64_round_def u Let_def)
  also have "\<dots> = of_int (k * N) * (1 / of_int N)"
    by (simp only: y round_half_even_of_int)
  also have "\<dots> = of_int k" using Npos by simp
  finally show ?thesis .
qed

lemma f64_round_nonneg: "0 \<le> x \<Longrightarrow> 0 \<le> f64_round x"
proof -
  assume x: "0 \<le> x"
  {
    fix u :: rat assume u: "0 < u"
    with x have "(of_int 0 :: rat) \<le> x / u" by simp
    then have "0 \<le> round_half_even (x / u)" by (rule round_half_even_ge)
    with u have "0 \<le> of_int (round_half_even (x / u)) * u" by simp
  }
  then show ?thesis by (simp add: f64_round_def Let_def pow2_pos)
qed

subsection \<open>Integers and their hundredths round as expected\<close>

lemma round_scaled_floor:
  fixes q k N :: int
  assumes N: "128 \<le> N" and lo: "100 * k \<le> q" and hi: "q < 100 * k + 100"
  shows "\<lfloor>of_int (round_half_even (of_int q / 100 * of_int N)) / (of_int N :: rat)\<rfloor> = k"
proof -
  let ?y = "of_int q / 100 * of_int N :: rat"
  let ?r = "round_half_even ?y"
  from N have Npos: "(0::rat) < of_int N" by simp
  from N have N128: "(128::rat) \<le> of_int N"
    by (metis of_int_le_iff of_int_numeral)
  have lower: "k * N \<le> ?r"
  proof (rule round_half_even_ge)
    from lo have "(of_int (100 * k) :: rat) \<le> of_int q" by (simp only: of_int_le_iff)
    then have "(of_int k :: rat) \<le> of_int q / 100" by simp
    with Npos have "of_int k * of_int N \<le> ?y" by (simp only: mult_le_cancel_right_pos)
    then show "of_int (k * N) \<le> ?y" by (simp only: of_int_mult)
  qed
  have upper: "?r < (k + 1) * N"
  proof (cases "q = 100 * k")
    case True
    then have "?y = of_int (k * N)" by simp
    then have "?r = k * N" by (simp only: round_half_even_of_int)
    moreover have "k * N < (k + 1) * N" using N by (simp add: distrib_right)
    ultimately show ?thesis by simp
  next
    case False
    with lo hi have "q \<le> 100 * k + 99" by linarith
    then have "(of_int q :: rat) \<le> of_int (100 * k + 99)" by (simp only: of_int_le_iff)
    then have "(of_int q :: rat) / 100 \<le> of_int k + 99 / 100" by simp
    with Npos have "?y \<le> (of_int k + 99 / 100) * of_int N"
      by (simp only: mult_le_cancel_right_pos)
    also have "\<dots> = (of_int k + 1) * of_int N - of_int N / 100"
      by (simp add: distrib_right)
    also have "\<dots> < (of_int k + 1) * of_int N - 1 / 2"
      using N128 by simp
    also have "(of_int k + 1) * of_int N = (of_int ((k + 1) * N) :: rat)"
      by (simp only: of_int_mult of_int_add of_int_1)
    finally show ?thesis by (rule round_half_even_less)
  qed
  show ?thesis
  proof (rule floor_unique)
    from lower have "(of_int (k * N) :: rat) \<le> of_int ?r" by (simp only: of_int_le_iff)
    then have "(of_int k :: rat) * of_int N \<le> of_int ?r" by (simp only: of_int_mult)
    then show "of_int k \<le> of_int ?r / (of_int N :: rat)"
      by (simp only: pos_le_divide_eq [OF Npos])
    from upper have "(of_int ?r :: rat) < of_int ((k + 1) * N)" by (simp only: of_int_less_iff)
    then have "(of_int ?r :: rat) < (of_int k + 1) * of_int N"
      by (simp only: of_int_mult of_int_add of_int_1)
    then show "of_int ?r / (of_int N :: rat) < of_int k + 1"
      by (simp only: pos_divide_less_eq [OF Npos])
  qed
qed

lemma floor_f64_round_div_100:
  assumes "0 \<le> q" and "q < 2 ^ 52"
  shows "\<lfloor>f64_round (of_int q / 100)\<rfloor> = q div 100"
proof (cases "q = 0")
  case True
  then show ?thesis by (simp add: f64_round_def)
next
  case False
  let ?x = "of_int q / 100 :: rat"
  from False assms have pos: "0 < ?x" by simp
  have "(of_int q :: rat) < of_int (2 ^ 52)" using assms(2) by (simp only: of_int_less_iff)
  then have "?x < pow2 46" by (simp add: pow2_def)
  from ulp_inverse [OF pos this] obtain N :: int
    where u: "pow2 (exponent ?x - 52) = 1 / of_int N" and N: "2 ^ nat (53 - 46) \<le> N"
    by auto
  from N have N128: "128 \<le> N" by simp
  have fl: "f64_round ?x = of_int (round_half_even (?x * of_int N)) / of_int N"
    using pos by (simp add: f64_round_def u Let_def)
  have "100 * (q div 100) \<le> q" "q < 100 * (q div 100) + 100" by presburger+
  from round_scaled_floor [OF N128 this] fl show ?thesis by simp
qed

subsection \<open>Evaluating the model on numerals\<close>

lemma f64_round_0 [simp]: "f64_round 0 = 0"
  by (simp add: f64_round_def)

lemma f64_round_1 [simp]: "f64_round 1 = 1"
  using f64_round_of_int [of 1] by simp

lemma f64_round_numeral:
  "(numeral k :: int) < 2 ^ 53 \<Longrightarrow> f64_round (numeral k) = numeral k"
  using f64_round_of_int [of "numeral k"] by simp

lemma round_half_even_numeral [simp]: "round_half_even (numeral k) = numeral k"
  using round_half_even_of_int [of "numeral k"] by simp

lemma round_half_even_0 [simp]: "round_half_even 0 = 0"
  using round_half_even_of_int [of 0] by simp

lemma exponent_eq:
  assumes "0 < x" and "pow2 e \<le> x" and "x < pow2 (e + 1)"
  shows "exponent x = e"
proof -
  from exponent_bounds [OF assms(1)]
  have "pow2 (exponent x) < pow2 (e + 1)" "pow2 e < pow2 (exponent x + 1)"
    using assms(2,3) by auto
  then have "exponent x < e + 1" "e < exponent x + 1"
    by (auto dest: pow2_less_cancel)
  then show ?thesis by simp
qed

lemma floor_numeral_div:
  "\<lfloor>numeral a / numeral b :: rat\<rfloor> = numeral a div numeral b"
  using floor_divide_of_int_eq [of "numeral a" "numeral b", where 'a = rat] by simp

section \<open>Properties of the percentile\<close>

lemma fst_calculatePercentile: "fst (calculatePercentile durations p) = sort durations"
  by (cases durations) (simp_all add: calculatePercentile_def Let_def)

lemma int_of_float64_nonneg: "0 \<le> x \<Longrightarrow> 0 \<le> int_of_float64 x"
  by (simp add: int_of_float64_def)

lemma percentile_index_nonneg:
  assumes "0 \<le> p"
  shows "0 \<le> int_of_float64 (f64_quot (f64_mul (float64_of_int (int n)) p) 100)"
proof -
  have "0 \<le> float64_of_int (int n)"
    unfolding float64_of_int_def by (rule f64_round_nonneg) simp
  with assms have "0 \<le> f64_mul (float64_of_int (int n)) p"
    unfolding f64_mul_def by (intro f64_round_nonneg mult_nonneg_nonneg)
  then have "0 \<le> f64_quot (f64_mul (float64_of_int (int n)) p) 100"
    unfolding f64_quot_def by (intro f64_round_nonneg) simp
  then show ?thesis by (rule int_of_float64_nonneg)
qed

lemma calculatePercentile_value:
  assumes "durations \<noteq> []"
    and "0 \<le> i"
    and "int_of_float64 (f64_quot (f64_mul (float64_of_int (int (length durations))) p) 100) = i"
  shows "snd (calculatePercentile durations p) =
         Inr (sort durations ! min (nat i) (length durations - 1))"
proof -
  let ?n = "length durations"
  from assms(1) have n: "0 < ?n" by simp
  show ?thesis
  proof (cases "i \<ge> int ?n")
    case True
    then have "min (nat i) (?n - 1) = ?n - 1" by simp
    moreover have "nat (int ?n - 1) = ?n - 1" by simp
    ultimately show ?thesis using True n assms(3)
      by (simp add: calculatePercentile_def Let_def)
  next
    case False
    with assms(2) have "min (nat i) (?n - 1) = nat i" by simp
    with False n assms(2,3) show ?thesis
      by (simp add: calculatePercentile_def Let_def)
  qed
qed

lemma calculatePercentile_no_panic:
  assumes "0 \<le> p"
  shows "\<exists>v. snd (calculatePercentile durations p) = Inr v"
proof (cases "durations = []")
  case True
  then show ?thesis by (simp add: calculatePercentile_def)
next
  case False
  from calculatePercentile_value [OF False percentile_index_nonneg [OF assms] refl]
  show ?thesis by blast
qed

lemma percentile_index_exact:
  assumes "n * p < 2 ^ 52" and "0 < n"
  shows "int_of_float64 (f64_quot (f64_mul (float64_of_int (int n)) (of_nat p)) 100) =
         int (n * p div 100)"
proof -
  have np: "int (n * p) < 2 ^ 52" using assms(1)
    by (metis of_nat_less_iff of_nat_numeral of_nat_power)
  show ?thesis
  proof (cases "p = 0")
    case True
    then show ?thesis
      by (simp add: f64_mul_def f64_quot_def f64_round_def int_of_float64_def)
  next
    case False
    then have "n \<le> n * p" by simp
    from this assms(1) have "n < 2 ^ 52" by (rule le_less_trans)
    then have "int n < 2 ^ 52"
      by (metis of_nat_less_iff of_nat_numeral of_nat_power)
    then have "int n < 2 ^ 53" by simp
    then have n: "float64_of_int (int n) = of_int (int n)"
      unfolding float64_of_int_def by (intro f64_round_of_int) simp_all
    have "of_int (int n) * (of_nat p :: rat) = of_int (int (n * p))" by simp
    moreover from np have "int (n * p) < 2 ^ 53" by simp
    then have "f64_round (of_int (int (n * p))) = of_int (int (n * p))"
      by (intro f64_round_of_int) simp_all
    ultimately have m: "f64_mul (float64_of_int (int n)) (of_nat p) = of_int (int (n * p))"
      unfolding f64_mul_def n by (simp only:)
    have q: "\<lfloor>f64_round (of_int (int (n * p)) / 100)\<rfloor> = int (n * p) div 100"
      using np by (intro floor_f64_round_div_100) simp_all
    have "0 \<le> f64_round (of_int (int (n * p)) / 100)"
      by (rule f64_round_nonneg) simp
    then show ?thesis
      unfolding m f64_quot_def int_of_float64_def using q by (simp add: zdiv_int)
  qed
qed

text \<open>
  Claim C2, as the code has it. The percentile is a \<^verbatim>\<open>float64\<close>, and the index
  is computed in binary64. The percentiles the program asks for are the whole numbers
  50, 90, 95 and 99. For a whole-number percentile \<open>p\<close> and a non-empty collection of \<open>n\<close>
  durations with \<open>n * p < 2^52\<close>, the binary64 computation of the index is exact:
  the call returns the element at index \<open>n * p div 100\<close>, or at \<open>n - 1\<close> when that
  is smaller, of the collection sorted ascending. The bound keeps \<open>n * p\<close> and the
  quotient within the 53 bits of a significand; it holds for every collection that fits
  in memory.
\<close>

theorem percentile_nearest_rank:
  assumes "durations \<noteq> []" and "length durations * p < 2 ^ 52"
  shows "snd (calculatePercentile durations (of_nat p)) =
         Inr (sort durations ! min (length durations * p div 100) (length durations - 1))"
proof -
  from assms(1) have "0 < length durations" by simp
  from percentile_index_exact [OF assms(2) this]
       calculatePercentile_value [OF assms(1), of "int (length durations * p div 100)" "of_nat p"]
  show ?thesis by simp
qed

theorem percentile_nearest_rank_witness:
  "[3000000, 1000000, 2000000, 7000000, 5000000, 6000000, 4000000] \<noteq> ([] :: Duration list) \<and>
   length [3000000, 1000000, 2000000, 7000000, 5000000, 6000000, 4000000 :: Duration] * 50 < 2 ^ 52 \<and>
   snd (calculatePercentile [3000000, 1000000, 2000000, 7000000, 5000000, 6000000, 4000000] 50)
     = Inr 4000000"
  using percentile_nearest_rank
    [of "[3000000, 1000000, 2000000, 7000000, 5000000, 6000000, 4000000]" 50]
  by simp

lemma fractional_product_rounds_to_100:
  "f64_mul (float64_of_int 7) (2010535547933257 / 140737488355328) = 100"
proof -
  let ?x = "14073748835532799 / 140737488355328 :: rat"
  have e: "exponent ?x = 6"
    by (rule exponent_eq) (simp_all add: pow2_def)
  have "f64_round ?x = 100"
    by (simp add: f64_round_def e pow2_def round_half_even_def floor_numeral_div Let_def)
  then show ?thesis
    by (simp add: f64_mul_def float64_of_int_def f64_round_numeral)
qed

text \<open>
  Claim C2 as stated, for every percentile, fails for a fractional one. Take seven
  durations and the \<^verbatim>\<open>float64\<close> nearest to \<open>100 / 7\<close> from below,
  \<open>14.285714285714285\<close>. The product \<open>7 * p\<close> rounds up to \<open>100\<close>, the index is
  \<open>1\<close> and the call returns the second smallest duration, 2 ms. The exact quotient
  \<open>7 * p / 100\<close> is below one, so the stated index is \<open>0\<close> and the stated element
  the smallest duration, 1 ms.
\<close>

theorem percentile_fractional_counterexample:
  "snd (calculatePercentile
          [3000000, 1000000, 2000000, 7000000, 5000000, 6000000, 4000000]
          (2010535547933257 / 140737488355328)) = Inr 2000000 \<and>
   \<lfloor>7 * (2010535547933257 / 140737488355328) / 100 :: rat\<rfloor> = 0 \<and>
   sort [3000000, 1000000, 2000000, 7000000, 5000000, 6000000, 4000000 :: Duration] !
     min (nat \<lfloor>7 * (2010535547933257 / 140737488355328) / 100 :: rat\<rfloor>)
         (length [3000000, 1000000, 2000000, 7000000, 5000000, 6000000, 4000000 :: Duration] - 1)
     = 1000000"
proof -
  have "int_of_float64 (f64_quot (f64_mul (float64_of_int 7)
          (2010535547933257 / 140737488355328)) 100) = 1"
    by (simp add: fractional_product_rounds_to_100 f64_quot_def int_of_float64_def)
  then have code: "snd (calculatePercentile
          [3000000, 1000000, 2000000, 7000000, 5000000, 6000000, 4000000]
          (2010535547933257 / 140737488355328)) = Inr 2000000"
    by (simp add: calculatePercentile_def Let_def)
  have exact: "\<lfloor>7 * (2010535547933257 / 140737488355328) / 100 :: rat\<rfloor> = 0"
    by (simp add: floor_numeral_div)
  have "sort [3000000, 1000000, 2000000, 7000000, 5000000, 6000000, 4000000 :: Duration] !
     min (nat \<lfloor>7 * (2010535547933257 / 140737488355328) / 100 :: rat\<rfloor>)
         (length [3000000, 1000000, 2000000, 7000000, 5000000, 6000000, 4000000 :: Duration] - 1)
     = 1000000"
    unfolding exact by simp
  with code exact show ?thesis by simp
qed

section \<open>Properties of the classifier\<close>

lemma classifier_follows_code_priority:
  "classifyErrorToHTTPStatus (Some e) = first_match code_priority 500 e"
  by (simp add: classifyErrorToHTTPStatus_def code_priority_def mentions_def Let_def)

lemma first_match_codes:
  "first_match table fallback e \<in> insert fallback (snd ` set table)"
  by (induction table fallback e rule: first_match.induct) auto

text \<open>
  Claim C4, as the code has it. For every failure the classifier returns one of the
  codes 408, 503, 404, 495, 500 and 310, and the code is the one of the first check
  that holds in this order: network timeout (408), temporary network error (503),
  ``connection refused'' (503), ``no such host'' (404), ``certificate'' or ``x509''
  (495), ``connection reset'' (500), ``TLS handshake timeout'' (408), ``stopped after''
  with ``redirects'' (310), ``EOF'' (500), ``connection closed'' (500), ``context
  deadline exceeded'' (408), ``dial tcp'' with ``i/o timeout'' (408); 500 when none
  holds. The remaining tests of the function never decide a code.
\<close>
theorem classifier_priority_order:
  "classifyErrorToHTTPStatus (Some e) = first_match code_priority 500 e \<and>
   classifyErrorToHTTPStatus (Some e) \<in> {408, 503, 404, 495, 500, 310}"
proof -
  have "first_match code_priority 500 e \<in> insert 500 (snd ` set code_priority)"
    by (rule first_match_codes)
  also have "insert 500 (snd ` set code_priority) = {408, 503, 404, 495, 500, 310}"
    by (auto simp: code_priority_def)
  finally show ?thesis by (simp only: classifier_follows_code_priority simp_thms)
qed

text \<open>
  Claim C4 as stated puts the check for EOF before the one for redirects. The failure of
  a request that was redirected too often through a URL with ``EOF'' in it is
  classified as 310 by the code and as 500 by the stated order. (Go quotes the URL in
  the message; the quotes play no part.)
\<close>
theorem classifier_order_counterexample:
  "classifyErrorToHTTPStatus
     (Some (NetError False False ''Get http://host/EOF: stopped after 10 redirects'')) = 310 \<and>
   first_match claimed_priority 500
     (NetError False False ''Get http://host/EOF: stopped after 10 redirects'') = 500"
  by (simp add: classifyErrorToHTTPStatus_def claimed_priority_def mentions_def)


section \<open>Effects of the percentile on the report\<close>

lemma percentileLine_sorts:
  "\<exists>v. percentileLine p report =
         Inr (PrintPercentile p v, report\<lparr> Durations := sort (Durations report) \<rparr>)"
proof -
  have "(0::rat) \<le> of_nat p" by simp
  from calculatePercentile_no_panic [OF this, of "Durations report"]
  obtain v where "snd (calculatePercentile (Durations report) (of_nat p)) = Inr v" ..
  with fst_calculatePercentile [of "Durations report" "of_nat p"]
  have "calculatePercentile (Durations report) (of_nat p) = (sort (Durations report), Inr v)"
    by (metis prod.collapse)
  then show ?thesis by (simp add: percentileLine_def)
qed

lemma sort_idem: "sort (sort xs) = sort xs"
  by (simp add: sorted_sort_id)

lemma responseTimeStats_effect:
  "\<exists>stats. responseTimeStats report =
     Inr (stats, report\<lparr> Durations := sort (Durations report) \<rparr>)"
proof (cases "Durations report = []")
  case True
  then have "report\<lparr> Durations := sort (Durations report) \<rparr> = report" by simp
  with True show ?thesis by (simp add: responseTimeStats_def)
next
  case False
  let ?r = "report\<lparr> Durations := sort (Durations report) \<rparr>"
  have same: "?r\<lparr> Durations := sort (Durations ?r) \<rparr> = ?r"
    by (simp add: sort_idem)
  from percentileLine_sorts [of 50 report] obtain v50
    where p50: "percentileLine 50 report = Inr (PrintPercentile 50 v50, ?r)" ..
  from percentileLine_sorts [of 90 ?r] obtain v90
    where p90: "percentileLine 90 ?r = Inr (PrintPercentile 90 v90, ?r)"
    unfolding same ..
  from percentileLine_sorts [of 95 ?r] obtain v95
    where p95: "percentileLine 95 ?r = Inr (PrintPercentile 95 v95, ?r)"
    unfolding same ..
  from percentileLine_sorts [of 99 ?r] obtain v99
    where p99: "percentileLine 99 ?r = Inr (PrintPercentile 99 v99, ?r)"
    unfolding same ..
  from False have "length (Durations report) > 0" by simp
  then show ?thesis
    unfolding responseTimeStats_def by (simp only: if_True p50 p90 p95 p99 sum.case prod.case) blast
qed

text \<open>
  Claim C6, as the code has it. A percentile call leaves the collection it is given
  sorted ascending: same durations, new order. \<open>printReport\<close>, which asks for four
  percentiles of \<open>report.Durations\<close>, never panics and hands back the report
  with its durations sorted and every other field as it was. The standard deviation
  only reads the collection.
\<close>
theorem percentile_sorts_in_place:
  "fst (calculatePercentile (Durations report) p) = sort (Durations report) \<and>
   (\<exists>lines. printReport report =
      Inr (lines, report\<lparr> Durations := sort (Durations report) \<rparr>))"
proof -
  from responseTimeStats_effect [of report] obtain stats where
    "responseTimeStats report = Inr (stats, report\<lparr> Durations := sort (Durations report) \<rparr>)" ..
  then have "\<exists>lines. printReport report =
      Inr (lines, report\<lparr> Durations := sort (Durations report) \<rparr>)"
    by (simp add: printReport_def)
  with fst_calculatePercentile show ?thesis by simp
qed

text \<open>
  Claim C6 as stated fails: after three results of 3 ms, 1 ms and 2 ms the report holds
  the durations in arrival order, and one percentile call leaves them in ascending
  order.
\<close>
theorem percentile_reorders_report_counterexample:
  "Durations (foldl aggregate initialReport
      [\<lparr> StatusCode = 200, Duration = 3000000, Error = None \<rparr>,
       \<lparr> StatusCode = 200, Duration = 1000000, Error = None \<rparr>,
       \<lparr> StatusCode = 200, Duration = 2000000, Error = None \<rparr>])
     = [3000000, 1000000, 2000000] \<and>
   fst (calculatePercentile (Durations (foldl aggregate initialReport
      [\<lparr> StatusCode = 200, Duration = 3000000, Error = None \<rparr>,
       \<lparr> StatusCode = 200, Duration = 1000000, Error = None \<rparr>,
       \<lparr> StatusCode = 200, Duration = 2000000, Error = None \<rparr>])) 50)
     = [1000000, 2000000, 3000000]"
  by (simp add: aggregate_durations initialReport_def fst_calculatePercentile)

section \<open>Properties of the dispatcher\<close>

lemma length_filter_update:
  "i < length xs \<Longrightarrow>
   length (filter P (xs[i := y])) + (if P (xs ! i) then 1 else 0) =
   length (filter P xs) + (if P y then 1 else 0)"
proof (induction xs arbitrary: i)
  case Nil
  then show ?case by simp
next
  case (Cons x xs)
  show ?case
  proof (cases i)
    case 0
    then show ?thesis by simp
  next
    case (Suc j)
    with Cons.prems have "j < length xs" by simp
    from Cons.IH [OF this] Suc show ?thesis by simp
  qed
qed

lemma holders_update:
  assumes "i < length (tasks s)"
  shows "holders (s\<lparr> tasks := (tasks s)[i := t] \<rparr>) + (if holds_token (tasks s ! i) then 1 else 0) =
         holders s + (if holds_token t then 1 else 0)"
  using length_filter_update [OF assms, of holds_token t] by (simp add: holders_def)

lemma dispatch_inv_initial: "dispatch_inv capacity initialDispatch"
  by (simp add: dispatch_inv_def initialDispatch_def holders_def)

lemma holders_simps [simp]:
  "holders (s\<lparr> semaphore := n \<rparr>) = holders s"
  "holders (s\<lparr> results := rs \<rparr>) = holders s"
  "holders (s\<lparr> progress := k \<rparr>) = holders s"
  "holders (s\<lparr> tasks := tasks s @ [Waiting] \<rparr>) = holders s"
  by (simp_all add: holders_def)

lemma step_inv:
  assumes "step requests capacity s s'" and "dispatch_inv capacity s"
  shows "dispatch_inv capacity s'"
  using assms
proof (induction rule: step.induct)
  case (spawn s)
  then show ?case by (simp add: dispatch_inv_def)
next
  case (acquire i s)
  with holders_update [of i s Holding] show ?case
    by (auto simp: dispatch_inv_def)
next
  case (handoff i s j)
  from handoff(3,5) have "holds_token (tasks s ! j)" by simp
  moreover from handoff(4) have "tasks s ! j \<in> set (tasks s)" by simp
  ultimately have "0 < holders s"
    by (auto simp: holders_def filter_empty_conv)
  with handoff(1,6) show ?case by (simp add: dispatch_inv_def)
next
  case (request i s a)
  with holders_update [of i s Delivered] show ?case
    by (auto simp: dispatch_inv_def)
next
  case (signal i s)
  with holders_update [of i s Signalled] show ?case
    by (auto simp: dispatch_inv_def)
next
  case (release i s)
  with holders_update [of i s Released] show ?case
    by (auto simp: dispatch_inv_def)
qed

lemma reachable_inv:
  assumes "reachable requests capacity s"
  shows "dispatch_inv capacity s"
  using assms unfolding reachable_def
  by (induction rule: rtranclp_induct) (auto intro: dispatch_inv_initial step_inv)

lemma in_flight_le_holders: "in_flight s \<le> holders s"
proof -
  have "filter (\<lambda>t. t = Holding) (tasks s) = filter (\<lambda>t. t = Holding) (filter holds_token (tasks s))"
    by (auto intro: filter_cong)
  then have "in_flight s = length (filter (\<lambda>t. t = Holding) (filter holds_token (tasks s)))"
    by (simp only: in_flight_def)
  also have "\<dots> \<le> holders s" unfolding holders_def by (rule length_filter_le)
  finally show ?thesis .
qed

lemma delivery_holds_token:
  assumes "step requests capacity s s'" and "results s' \<noteq> results s"
  shows "\<exists>i<length (tasks s). tasks s ! i = Holding \<and> tasks s' ! i = Delivered"
  using assms by (induction rule: step.induct) auto

text \<open>
  Claim C9. In every state a run can reach, at most \<open>capacity\<close> tasks hold a token,
  so at most \<open>capacity\<close> calls of the request executor are under way; the tokens
  in the semaphore are exactly those of the tasks between their send and their
  receive; and a result is delivered only by a task that holds a token before and after
  the delivery.
\<close>
theorem admission_bound:
  assumes "reachable requests capacity s"
  shows "holders s \<le> capacity \<and> in_flight s \<le> capacity \<and> semaphore s = holders s \<and>
         (\<forall>s'. step requests capacity s s' \<and> results s' \<noteq> results s \<longrightarrow>
            (\<exists>i<length (tasks s). tasks s ! i = Holding \<and> tasks s' ! i = Delivered))"
proof -
  from reachable_inv [OF assms] have h: "holders s \<le> capacity" "semaphore s = holders s"
    by (simp_all add: dispatch_inv_def)
  with in_flight_le_holders [of s] have "in_flight s \<le> capacity" by simp
  with h delivery_holds_token show ?thesis by blast
qed

theorem admission_bound_witness:
  "reachable 2 1 \<lparr> tasks = [Holding, Waiting], semaphore = 1, results = [], progress = 0 \<rparr> \<and>
   holders \<lparr> tasks = [Holding, Waiting], semaphore = 1, results = [], progress = 0 \<rparr> \<le> 1 \<and>
   in_flight \<lparr> tasks = [Holding, Waiting], semaphore = 1, results = [], progress = 0 \<rparr> \<le> 1"
proof -
  let ?s1 = "\<lparr> tasks = [Waiting], semaphore = 0, results = [], progress = 0 \<rparr>"
  let ?s2 = "\<lparr> tasks = [Waiting, Waiting], semaphore = 0, results = [], progress = 0 \<rparr>"
  let ?s3 = "\<lparr> tasks = [Holding, Waiting], semaphore = 1, results = [], progress = 0 \<rparr>"
  have 1: "step 2 1 initialDispatch ?s1"
    using step.spawn [of initialDispatch 2 1] by (simp add: initialDispatch_def)
  have 2: "step 2 1 ?s1 ?s2"
    using step.spawn [of ?s1 2 1] by simp
  have 3: "step 2 1 ?s2 ?s3"
    using step.acquire [of 0 ?s2 1 2] by simp
  from 1 2 3 have r: "reachable 2 1 ?s3"
    unfolding reachable_def by (meson rtranclp.rtrancl_into_rtrancl rtranclp.rtrancl_refl)
  from admission_bound [OF r] r show ?thesis by simp
qed


subsection \<open>One result per task\<close>

lemma delivered_update:
  assumes "i < length (tasks s)"
  shows "delivered (s\<lparr> tasks := (tasks s)[i := t] \<rparr>) + (if past_request (tasks s ! i) then 1 else 0) =
         delivered s + (if past_request t then 1 else 0)"
  using length_filter_update [OF assms, of past_request t] by (simp add: delivered_def)

lemma delivered_simps [simp]:
  "delivered (s\<lparr> semaphore := n \<rparr>) = delivered s"
  "delivered (s\<lparr> results := rs \<rparr>) = delivered s"
  "delivered (s\<lparr> progress := k \<rparr>) = delivered s"
  "delivered (s\<lparr> tasks := tasks s @ [Waiting] \<rparr>) = delivered s"
  by (simp_all add: delivered_def)

lemma step_results_count:
  assumes "step requests capacity s s'"
    and "length (results s) = delivered s \<and> length (tasks s) \<le> requests"
  shows "length (results s') = delivered s' \<and> length (tasks s') \<le> requests"
  using assms
proof (induction rule: step.induct)
  case (spawn s)
  then show ?case by simp
next
  case (acquire i s)
  with delivered_update [of i s Holding] show ?case by simp
next
  case (handoff i s j)
  from handoff(2,3) delivered_update [of i s Holding]
  have 1: "delivered (s\<lparr> tasks := (tasks s)[i := Holding] \<rparr>) = delivered s" by simp
  from handoff(3,5) have "i \<noteq> j" by auto
  with handoff(4,5) delivered_update [of j "s\<lparr> tasks := (tasks s)[i := Holding] \<rparr>" Released]
  have "delivered (s\<lparr> tasks := (tasks s)[i := Holding, j := Released] \<rparr>) =
        delivered (s\<lparr> tasks := (tasks s)[i := Holding] \<rparr>)" by simp
  with 1 handoff(6) show ?case by simp
next
  case (request i s a)
  with delivered_update [of i s Delivered] show ?case by simp
next
  case (signal i s)
  with delivered_update [of i s Signalled] show ?case by simp
next
  case (release i s)
  with delivered_update [of i s Released] show ?case by simp
qed

lemma reachable_results_count:
  assumes "reachable requests capacity s"
  shows "length (results s) = delivered s \<and> length (tasks s) \<le> requests"
  using assms unfolding reachable_def
proof (induction rule: rtranclp_induct)
  case base
  then show ?case by (simp add: initialDispatch_def delivered_def)
next
  case (step s s')
  from step_results_count [OF step(2) step(3)] show ?case .
qed

text \<open>
  When all \<open>requests\<close> tasks have run to their end, the channel has been sent
  exactly \<open>requests\<close> results: the stream the aggregator consumes.
\<close>

lemma finished_run_delivers_every_result:
  assumes "reachable requests capacity s"
    and "length (tasks s) = requests" and "\<forall>t\<in>set (tasks s). t = Released"
  shows "length (results s) = requests"
proof -
  from assms(3) have "filter past_request (tasks s) = tasks s"
    by (auto simp: filter_id_conv)
  with reachable_results_count [OF assms(1)] assms(2) show ?thesis
    by (simp add: delivered_def)
qed

subsection \<open>A semaphore without capacity\<close>

lemma zero_requests_is_rejected:
  "Requests config = 0 \<Longrightarrow>
   main_start config = ConfigurationError ''URL and number of requests are required''"
  by (simp add: main_start_def)

lemma no_token_without_capacity:
  assumes "reachable requests 0 s"
  shows "results s = [] \<and> (\<forall>t\<in>set (tasks s). t = Waiting)"
  using assms unfolding reachable_def
proof (induction rule: rtranclp_induct)
  case base
  then show ?case by (simp add: initialDispatch_def)
next
  case (step s s')
  from step(2) step(3) show ?case
    by (induction rule: step.induct) (auto simp: all_set_conv_all_nth)
qed

text \<open>
  Claim C7 fails on the code for a concurrency of zero or less. With one request and
  concurrency 0 the check in \<open>main\<close> passes and dispatch begins; the task is
  started and then waits for a token for ever, since no step is possible. With
  concurrency -1 the program panics when it makes the semaphore. Neither is a
  configuration error.
\<close>
theorem zero_concurrency_is_dispatched:
  "main_start \<lparr> URL = ''http://localhost:8080'', Requests = 1, Concurrency = 0,
       Timeout = 10000000000, Method = ''GET'', Headers = Map.empty, Body = [],
       Format = ''plain'' \<rparr> = Dispatching 1 0 initialDispatch \<and>
   step 1 0 initialDispatch \<lparr> tasks = [Waiting], semaphore = 0, results = [], progress = 0 \<rparr> \<and>
   \<not> (\<exists>s'. step 1 0 \<lparr> tasks = [Waiting], semaphore = 0, results = [], progress = 0 \<rparr> s') \<and>
   main_start \<lparr> URL = ''http://localhost:8080'', Requests = 1, Concurrency = - 1,
       Timeout = 10000000000, Method = ''GET'', Headers = Map.empty, Body = [],
       Format = ''plain'' \<rparr> = Panicked MakechanSizeOutOfRange"
proof -
  let ?s1 = "\<lparr> tasks = [Waiting], semaphore = 0, results = [], progress = 0 \<rparr>"
  have 1: "step 1 0 initialDispatch ?s1"
    using step.spawn [of initialDispatch 1 0] by (simp add: initialDispatch_def)
  have 2: "\<not> (\<exists>s'. step 1 0 ?s1 s')"
  proof
    assume "\<exists>s'. step 1 0 ?s1 s'"
    then obtain s' where "step 1 0 ?s1 s'" ..
    then show False by cases simp_all
  qed
  from 1 2 show ?thesis
    by (simp add: main_start_def executeLoadTest_start_def)
qed

section \<open>Properties of the renderers\<close>

lemma Seconds_one_second: "Seconds 1000000000 = 1"
  by (simp add: Seconds_def Second_def signed_divide_int_def signed_modulo_int_def
      float64_of_int_def f64_quot_def f64_add_def)

text \<open>
  Claim C8 fails on the CSV export. The report of a run whose only request could not be
  constructed has no durations and a minimum of one hour, and the export prints that
  hour, 3600000.00 ms, in the column of the minimum.
\<close>
theorem csv_export_prints_sentinel:
  "collectResults [makeRequest (NewRequestFails (PlainError ''net/http: invalid method''))]
      1000000000 =
     Inr \<lparr> TotalTime = 1000000000, TotalRequests = 1, StatusCodes = [500 \<mapsto> 1], Errors = 1,
           Durations = [], MinDuration = 3600000000000, MaxDuration = 0, AvgDuration = 0,
           RPS = Finite 1, StdDeviation = 0,
           ErrorDetails = [''net/http: invalid method'' \<mapsto>
             \<lparr> Count = 1, Message = ''net/http: invalid method'', Code = 500 \<rparr>] \<rparr> \<and>
   CSVExporter_Export [500]
     \<lparr> TotalTime = 1000000000, TotalRequests = 1, StatusCodes = [500 \<mapsto> 1], Errors = 1,
       Durations = [], MinDuration = 3600000000000, MaxDuration = 0, AvgDuration = 0,
       RPS = Finite 1, StdDeviation = 0,
       ErrorDetails = [''net/http: invalid method'' \<mapsto>
         \<lparr> Count = 1, Message = ''net/http: invalid method'', Code = 500 \<rparr>] \<rparr> =
     ''Total Time (s),Total Requests,RPS,Min Duration (ms),Max Duration (ms),Avg Duration (ms),Errors''
       @ newline @
     ''1.00,1,1.00,3600000.00,0.00,0.00,1'' @ newline @
     newline @ ''Status Code Distribution'' @ newline @
     ''Code,Count,Percentage'' @ newline @
     ''500,1,100.00'' @ newline"
proof -
  have classify: "classifyErrorToHTTPStatus (Some (PlainError ''net/http: invalid method'')) = 500"
    by (simp add: classifyErrorToHTTPStatus_def)
  have collect: "collectResults [makeRequest (NewRequestFails (PlainError ''net/http: invalid method''))]
      1000000000 =
     Inr \<lparr> TotalTime = 1000000000, TotalRequests = 1, StatusCodes = [500 \<mapsto> 1], Errors = 1,
           Durations = [], MinDuration = 3600000000000, MaxDuration = 0, AvgDuration = 0,
           RPS = Finite 1, StdDeviation = 0,
           ErrorDetails = [''net/http: invalid method'' \<mapsto>
             \<lparr> Count = 1, Message = ''net/http: invalid method'', Code = 500 \<rparr>] \<rparr>"
    by (simp add: collectResults_def classify aggregate_def countStatus_def recordError_def
        processDuration_def initialReport_def Hour_def Let_def Seconds_one_second
        float64_of_int_def f64_div_def f64_quot_def calculateStdDeviation_def)
  have ms: "Milliseconds 3600000000000 = 3600000" "Milliseconds 0 = 0"
    by (simp_all add: Milliseconds_def Millisecond_def signed_divide_int_def)
  have d: "fmt_d 1 = ''1''" "fmt_d 500 = ''500''"
    by (simp_all add: fmt_d_def digits.simps)
  have p: "percentage 1 1 = Finite 100"
    by (simp add: percentage_def float64_of_int_def f64_div_def f64_quot_def f64_mul_def
        f64_round_numeral)
  have csv: "CSVExporter_Export [500]
     \<lparr> TotalTime = 1000000000, TotalRequests = 1, StatusCodes = [500 \<mapsto> 1], Errors = 1,
       Durations = [], MinDuration = 3600000000000, MaxDuration = 0, AvgDuration = 0,
       RPS = Finite 1, StdDeviation = 0,
       ErrorDetails = [''net/http: invalid method'' \<mapsto>
         \<lparr> Count = 1, Message = ''net/http: invalid method'', Code = 500 \<rparr>] \<rparr> =
     ''Total Time (s),Total Requests,RPS,Min Duration (ms),Max Duration (ms),Avg Duration (ms),Errors''
       @ newline @
     ''1.00,1,1.00,3600000.00,0.00,0.00,1'' @ newline @
     newline @ ''Status Code Distribution'' @ newline @
     ''Code,Count,Percentage'' @ newline @
     ''500,1,100.00'' @ newline"
    by (simp add: CSVExporter_Export_def Seconds_one_second ms d p float64_of_int_def
        f64_round_numeral digits.simps)
  from collect csv show ?thesis by (rule conjI)
qed

text \<open>The plain report, in contrast, prints no minimum when there are no durations.\<close>

lemma printReport_without_durations:
  assumes "Durations report = []"
  shows "\<exists>lines. printReport report = Inr (lines, report) \<and>
           PrintNoMeasurements \<in> set lines \<and> (\<forall>d. PrintMinimum d \<notin> set lines)"
  using assms
  by (auto simp: printReport_def responseTimeStats_def statusLines_def statusLine_def Let_def)

end
